theory Spec2Isabelle
  imports Complex_Main
begin

section \<open>Hermes2D: the selective assembler (discrete\_problem\_selective\_assembler.cpp)\<close>

text \<open>
  A shallow embedding of \<^verbatim>\<open>DiscreteProblemSelectiveAssembler<Scalar>\<close>. Pointers that may
  be \<^verbatim>\<open>NULL\<close> are options, arrays are lists, and a read through a null pointer, outside
  an array or of freed storage is a value of \<open>error\<close>, since C++ leaves it undefined.
\<close>

subsection \<open>Faults\<close>

datatype error = NullDeref | OutOfBounds | UseAfterFree

definition index_at :: "'a list \<Rightarrow> nat \<Rightarrow> error + 'a" where
  \<comment> \<open>\<^verbatim>\<open>xs[k]\<close> on an array of \<open>length xs\<close> entries.\<close>
  "index_at xs k = (if k < length xs then Inr (xs ! k) else Inl OutOfBounds)"

subsection \<open>Mesh elements and traversal states\<close>

record Node =
  node_marker :: int

record Element =
  el_id :: nat
  nvert :: nat
  marker :: int
  en :: "Node list"

text \<open>
  \<^verbatim>\<open>Traverse::State\<close>: \<open>e\<close> has one slot per space (\<open>None\<close> is a null pointer), \<open>rep\<close> is
  the representative element, \<open>isurf\<close> the active edge (a C++ \<^verbatim>\<open>int\<close>).
\<close>

record Traverse_State =
  e :: "Element option list"
  rep :: Element
  isurf :: int

subsection \<open>Forms\<close>

text \<open>
  The classes \<^verbatim>\<open>Form\<close>, \<^verbatim>\<open>MatrixForm\<close> and \<^verbatim>\<open>VectorForm\<close> are declared outside this
  file; only the members read here are kept. The volume, surface and DG classes add no
  member that is read here, so they share the record of their base class, as the casts
  \<^verbatim>\<open>(MatrixForm<Scalar>*)form\<close> of the source do. A finite \<^verbatim>\<open>double\<close> is the real number it
  denotes; \<^verbatim>\<open>fabs\<close> and \<^verbatim>\<open><\<close> on finite doubles are exact, so they are \<open>\<bar>_\<bar>\<close> and \<open><\<close> on
  these reals.
\<close>

record Form =
  scaling_factor :: real
  assembleEverywhere :: bool
  areas_internal :: "int list"

record MatrixForm = Form +
  form_i :: nat
  form_j :: nat

record VectorForm = Form +
  vform_i :: nat

definition threshold :: real where
  \<comment> \<open>The \<^verbatim>\<open>double\<close> that the literal \<^verbatim>\<open>1e-12\<close> denotes: the one nearest to
      one over ten to the twelfth, which lies a little below it.\<close>
  "threshold = 4951760157141521 / 2 ^ 92"

subsection \<open>Eligibility predicates (\<^verbatim>\<open>form_to_be_assembled\<close>)\<close>

definition elem_present :: "Traverse_State \<Rightarrow> nat \<Rightarrow> error + bool" where
  \<comment> \<open>The test \<^verbatim>\<open>current_state->e[k]\<close> of a pointer as a condition.\<close>
  "elem_present current_state k =
     (case index_at (e current_state) k of
        Inl err \<Rightarrow> Inl err
      | Inr p \<Rightarrow> Inr (p \<noteq> None))"

definition active_edge_marker :: "Traverse_State \<Rightarrow> error + int" where
  \<comment> \<open>\<^verbatim>\<open>current_state->rep->en[current_state->isurf]->marker\<close>.\<close>
  "active_edge_marker current_state =
     (if isurf current_state < 0 then Inl OutOfBounds
      else (case index_at (en (rep current_state)) (nat (isurf current_state)) of
              Inl err \<Rightarrow> Inl err
            | Inr nd \<Rightarrow> Inr (node_marker nd)))"

fun areas_contain :: "int list \<Rightarrow> int \<Rightarrow> bool" where
  \<comment> \<open>The loop over \<^verbatim>\<open>form->areas_internal\<close> that returns true at the first equal marker.\<close>
  "areas_contain [] this_marker = False"
| "areas_contain (a # as) this_marker =
     (if a = this_marker then True else areas_contain as this_marker)"

text \<open>
  \<open>block_weights\<close> is the optional table \<^verbatim>\<open>this->block_weights\<close>; its \<^verbatim>\<open>get_A(i, j)\<close> is the
  function held in the option.
\<close>

definition form_to_be_assembled_MatrixForm ::
  "(nat \<Rightarrow> nat \<Rightarrow> real) option \<Rightarrow> 'a MatrixForm_scheme \<Rightarrow> Traverse_State \<Rightarrow> error + bool" where
  "form_to_be_assembled_MatrixForm block_weights form current_state =
     (case elem_present current_state (form_i form) of
        Inl err \<Rightarrow> Inl err
      | Inr present_i \<Rightarrow>
          if \<not> present_i then Inr False
          else (case elem_present current_state (form_j form) of
                  Inl err \<Rightarrow> Inl err
                | Inr present_j \<Rightarrow>
                    if \<not> present_j then Inr False
                    else if \<bar>scaling_factor form\<bar> < threshold then Inr False
                    else (case block_weights of
                            None \<Rightarrow> Inr True
                          | Some get_A \<Rightarrow>
                              if \<bar>get_A (form_i form) (form_j form)\<bar> < threshold
                              then Inr False else Inr True)))"


definition form_to_be_assembled_MatrixFormSurf ::
  "(nat \<Rightarrow> nat \<Rightarrow> real) option \<Rightarrow> 'a MatrixForm_scheme \<Rightarrow> Traverse_State \<Rightarrow> error + bool" where
  "form_to_be_assembled_MatrixFormSurf block_weights form current_state =
     (case form_to_be_assembled_MatrixForm block_weights form current_state of
        Inl err \<Rightarrow> Inl err
      | Inr b \<Rightarrow>
          if \<not> b then Inr False
          else (case active_edge_marker current_state of
                  Inl err \<Rightarrow> Inl err
                | Inr this_marker \<Rightarrow>
                    if this_marker = 0 then Inr False
                    else if assembleEverywhere form then Inr True
                    else Inr (areas_contain (areas_internal form) this_marker)))"


definition form_to_be_assembled_VectorForm ::
  "'a VectorForm_scheme \<Rightarrow> Traverse_State \<Rightarrow> error + bool" where
  "form_to_be_assembled_VectorForm form current_state =
     (case elem_present current_state (vform_i form) of
        Inl err \<Rightarrow> Inl err
      | Inr present_i \<Rightarrow>
          if \<not> present_i then Inr False
          else if \<bar>scaling_factor form\<bar> < threshold then Inr False
          else Inr True)"


definition form_to_be_assembled_VectorFormSurf ::
  "'a VectorForm_scheme \<Rightarrow> Traverse_State \<Rightarrow> error + bool" where
  "form_to_be_assembled_VectorFormSurf form current_state =
     (case form_to_be_assembled_VectorForm form current_state of
        Inl err \<Rightarrow> Inl err
      | Inr b \<Rightarrow>
          if \<not> b then Inr False
          else (case active_edge_marker current_state of
                  Inl err \<Rightarrow> Inl err
                | Inr this_marker \<Rightarrow>
                    if this_marker = 0 then Inr False
                    else if assembleEverywhere form then Inr True
                    else Inr (areas_contain (areas_internal form) this_marker)))"


subsection \<open>Spaces, the weak formulation, and the targets\<close>

text \<open>
  \<^verbatim>\<open>AsmList\<close>: the array \<^verbatim>\<open>dof\<close> of global dof numbers, \<^verbatim>\<open>cnt\<close> entries long; a negative
  entry stands for a constrained dof.
\<close>

type_synonym AsmList = "int list"

text \<open>
  What this file reads of a \<^verbatim>\<open>Space\<close>, whose class is declared elsewhere:
  \<open>get_seq\<close> its sequence number, \<open>num_dofs\<close> its share of \<^verbatim>\<open>Space::get_num_dofs(spaces)\<close>,
  \<open>min_marker_unused\<close> the member of that name of
  \<^verbatim>\<open>get_mesh()->get_boundary_markers_conversion()\<close>,
  \<open>get_element_assembly_list\<close> the list the method of that name fills in, and
  \<open>get_neighbors\<close> the elements that a \<^verbatim>\<open>NeighborSearch\<close> built on the space's mesh for a
  central element reports across an edge with errors ignored (\<^verbatim>\<open>get_num_neighbors()\<close>
  being their number).
\<close>

record Space =
  get_seq :: int
  num_dofs :: nat
  min_marker_unused :: nat
  get_element_assembly_list :: "Element \<Rightarrow> AsmList"
  get_neighbors :: "Element option \<Rightarrow> nat \<Rightarrow> Element list"

definition get_num_dofs :: "Space list \<Rightarrow> nat" where
  \<comment> \<open>Modelled from the spec: the static \<^verbatim>\<open>Space<Scalar>::get_num_dofs(spaces)\<close> is not in
      this file; \<open>ndof\<close> is computed from the spaces, as the sum of their dof counts.\<close>
  "get_num_dofs spaces = sum_list (map num_dofs spaces)"

text \<open>
  What this file reads of a \<^verbatim>\<open>WeakForm\<close>: the four form vectors, \<^verbatim>\<open>is_DG()\<close>, and the
  table \<^verbatim>\<open>get_blocks(force_diagonal_blocks)\<close>, a \<^verbatim>\<open>bool**\<close> that carries no length and is
  read as \<open>blocks m n\<close>.
\<close>

record WeakForm =
  mfvol :: "MatrixForm list"
  vfvol :: "VectorForm list"
  mfsurf :: "MatrixForm list"
  vfsurf :: "VectorForm list"
  is_DG :: bool
  get_blocks :: "bool \<Rightarrow> nat \<Rightarrow> nat \<Rightarrow> bool"

text \<open>
  The targets are kept as the sequence of calls made on them, oldest first: the
  assembler only calls their methods and reads \<^verbatim>\<open>rhs->length()\<close>.
\<close>

datatype mat_call = M_zero | M_free | M_prealloc nat | M_pre_add_ij int int | M_alloc

datatype vec_call = V_alloc nat | V_zero

definition vec_length :: "vec_call list \<Rightarrow> nat" where
  \<comment> \<open>Modelled from the spec: \<^verbatim>\<open>Vector::length()\<close> is not in this file; \<^verbatim>\<open>alloc(ndof)\<close>
      always resets the vector to \<open>ndof\<close> entries and \<^verbatim>\<open>zero()\<close> keeps its length.\<close>
  "vec_length calls = fold (\<lambda>c n. case c of V_alloc k \<Rightarrow> k | V_zero \<Rightarrow> n) calls 0"

fun mat_step :: "mat_call \<Rightarrow> (int \<times> int) list \<times> (int \<times> int) set \<Rightarrow> (int \<times> int) list \<times> (int \<times> int) set" where
  \<comment> \<open>Modelled from the spec: \<^verbatim>\<open>SparseMatrix\<close> is not in this file. \<^verbatim>\<open>free()\<close> discards the
      pattern, \<^verbatim>\<open>prealloc\<close> starts a registration, \<^verbatim>\<open>pre_add_ij\<close> registers a coordinate,
      \<^verbatim>\<open>alloc()\<close> commits the registered coordinates as the pattern, \<^verbatim>\<open>zero()\<close> clears the
      values and keeps the pattern. The state is (registered coordinates, pattern).\<close>
  "mat_step M_zero (pre, pat) = (pre, pat)"
| "mat_step M_free (pre, pat) = ([], {})"
| "mat_step (M_prealloc n) (pre, pat) = ([], pat)"
| "mat_step (M_pre_add_ij r c) (pre, pat) = (pre @ [(r, c)], pat)"
| "mat_step M_alloc (pre, pat) = (pre, set pre)"

definition sparsity_pattern :: "mat_call list \<Rightarrow> (int \<times> int) set" where
  "sparsity_pattern calls = snd (fold mat_step calls ([], {}))"

subsection \<open>The assembler object\<close>

record Assembler =
  sp_seq :: "int list option"
  spaces_size :: nat
  mfvol_forms_size :: nat
  vfvol_forms_size :: nat
  mfsurf_forms_size :: nat
  vfsurf_forms_size :: nat
  surface_markers_size :: nat
  volume_markers_size :: nat
  matrix_structure_reusable :: bool
  vector_structure_reusable :: bool
  matrix_surface_recalculation :: "bool list option"
  vector_surface_recalculation :: "bool list option"
  matrix_surface_forms_recalculation :: "bool list option list option"
  vector_surface_forms_recalculation :: "bool list option list option"
  matrix_volume_recalculation :: "bool list option"
  vector_volume_recalculation :: "bool list option"
  matrix_volume_forms_recalculation :: "bool list option list option"
  vector_volume_forms_recalculation :: "bool list option list option"
  wf :: "WeakForm option"
  force_diagonal_blocks :: bool

definition DiscreteProblemSelectiveAssembler :: Assembler where
  \<comment> \<open>The constructor; \<open>wf\<close> and \<open>force_diagonal_blocks\<close> belong to base classes and start
      unset.\<close>
  "DiscreteProblemSelectiveAssembler =
     \<lparr>sp_seq = None, spaces_size = 0,
      mfvol_forms_size = 0, vfvol_forms_size = 0, mfsurf_forms_size = 0, vfsurf_forms_size = 0,
      surface_markers_size = 0, volume_markers_size = 0,
      matrix_structure_reusable = False, vector_structure_reusable = False,
      matrix_surface_recalculation = None, vector_surface_recalculation = None,
      matrix_surface_forms_recalculation = None, vector_surface_forms_recalculation = None,
      matrix_volume_recalculation = None, vector_volume_recalculation = None,
      matrix_volume_forms_recalculation = None, vector_volume_forms_recalculation = None,
      wf = None, force_diagonal_blocks = False\<rparr>"

subsection \<open>Loops that stop at a fault\<close>

fun for_loop :: "'k list \<Rightarrow> ('k \<Rightarrow> 's \<Rightarrow> error option \<times> 's) \<Rightarrow> 's \<Rightarrow> error option \<times> 's" where
  \<comment> \<open>A \<^verbatim>\<open>for\<close> loop over the given indices; the state at a fault is the state reached.\<close>
  "for_loop [] body s = (None, s)"
| "for_loop (k # ks) body s =
     (case body k s of
        (Some err, s') \<Rightarrow> (Some err, s')
      | (None, s') \<Rightarrow> for_loop ks body s')"

subsection \<open>\<^verbatim>\<open>prepare_sparse_structure\<close>: the local blocks (lines 183 to 203)\<close>

fun local_loop_j :: "int \<Rightarrow> AsmList \<Rightarrow> mat_call list \<Rightarrow> mat_call list" where
  \<comment> \<open>\<^verbatim>\<open>for j < an->cnt: if(an->dof[j] >= 0) mat->pre_add_ij(am->dof[i], an->dof[j])\<close>\<close>
  "local_loop_j am_dof [] calls = calls"
| "local_loop_j am_dof (an_dof # an) calls =
     local_loop_j am_dof an (if an_dof \<ge> 0 then calls @ [M_pre_add_ij am_dof an_dof] else calls)"

fun local_loop_i :: "AsmList \<Rightarrow> AsmList \<Rightarrow> mat_call list \<Rightarrow> mat_call list" where
  \<comment> \<open>\<^verbatim>\<open>for i < am->cnt: if(am->dof[i] >= 0) ...\<close>\<close>
  "local_loop_i [] an calls = calls"
| "local_loop_i (am_dof # am) an calls =
     local_loop_i am an (if am_dof \<ge> 0 then local_loop_j am_dof an calls else calls)"

definition local_block ::
  "(nat \<Rightarrow> nat \<Rightarrow> bool) \<Rightarrow> Traverse_State \<Rightarrow> AsmList list \<Rightarrow> nat \<Rightarrow> nat \<Rightarrow> mat_call list
     \<Rightarrow> error option \<times> mat_call list" where
  \<comment> \<open>The body of the loops over \<open>m\<close> and \<open>n\<close>; \<^verbatim>\<open>&&\<close> reads its operands left to right and
      stops at the first false one.\<close>
  "local_block blocks current_state al m n calls =
     (if \<not> blocks m n then (None, calls)
      else (case elem_present current_state m of
              Inl err \<Rightarrow> (Some err, calls)
            | Inr present_m \<Rightarrow>
                if \<not> present_m then (None, calls)
                else (case elem_present current_state n of
                        Inl err \<Rightarrow> (Some err, calls)
                      | Inr present_n \<Rightarrow>
                          if \<not> present_n then (None, calls)
                          else (case index_at al m of
                                  Inl err \<Rightarrow> (Some err, calls)
                                | Inr am \<Rightarrow>
                                    (case index_at al n of
                                       Inl err \<Rightarrow> (Some err, calls)
                                     | Inr an \<Rightarrow> (None, local_loop_i am an calls))))))"

definition local_blocks ::
  "nat \<Rightarrow> (nat \<Rightarrow> nat \<Rightarrow> bool) \<Rightarrow> Traverse_State \<Rightarrow> AsmList list \<Rightarrow> mat_call list
     \<Rightarrow> error option \<times> mat_call list" where
  "local_blocks n_spaces blocks current_state al calls =
     for_loop [0..<n_spaces] (\<lambda>m. for_loop [0..<n_spaces] (\<lambda>n. local_block blocks current_state al m n)) calls"

definition assembly_list_step ::
  "Space list \<Rightarrow> Traverse_State \<Rightarrow> nat \<Rightarrow> AsmList list \<Rightarrow> error option \<times> AsmList list" where
  \<comment> \<open>\<^verbatim>\<open>if(current_state->e[i]) spaces[i]->get_element_assembly_list(current_state->e[i], &(al[i]))\<close>\<close>
  "assembly_list_step spaces current_state i al =
     (case index_at (e current_state) i of
        Inl err \<Rightarrow> (Some err, al)
      | Inr None \<Rightarrow> (None, al)
      | Inr (Some el) \<Rightarrow>
          (case index_at spaces i of
             Inl err \<Rightarrow> (Some err, al)
           | Inr sp \<Rightarrow> (None, al[i := get_element_assembly_list sp el])))"

subsection \<open>\<^verbatim>\<open>prepare_sparse_structure\<close>: the DG branch (lines 94 to 181)\<close>

text \<open>
  The two arrays of the branch live on the heap and are released inside the loops that
  read them, so each is an option: \<open>None\<close> once \<^verbatim>\<open>delete []\<close> has run. \<open>dg_calls\<close> is the
  matrix target. The assembly list \<open>an\<close> of a neighbour is a heap object too.
\<close>

record dg_state =
  neighbor_elems_arrays :: "Element list list list option"
  neighbor_elems_counts :: "nat list list option"
  dg_calls :: "mat_call list"

fun neighbors_loop ::
  "Space list \<Rightarrow> Traverse_State \<Rightarrow> nat \<Rightarrow> nat list \<Rightarrow> error + Element list list list" where
  \<comment> \<open>"Get the neighbors": for every space \<open>el\<close>, and every edge, the neighbours that the
      search on \<^verbatim>\<open>current_state->e[el]\<close> reports.\<close>
  "neighbors_loop spaces current_state num_edges [] = Inr []"
| "neighbors_loop spaces current_state num_edges (el # els) =
     (case index_at (e current_state) el of
        Inl err \<Rightarrow> Inl err
      | Inr central_el \<Rightarrow>
          (case index_at spaces el of
             Inl err \<Rightarrow> Inl err
           | Inr sp \<Rightarrow>
               (case neighbors_loop spaces current_state num_edges els of
                  Inl err \<Rightarrow> Inl err
                | Inr rows \<Rightarrow> Inr (map (get_neighbors sp central_el) [0..<num_edges] # rows))))"

function dg_loop_j ::
  "bool \<Rightarrow> bool \<Rightarrow> int \<Rightarrow> nat \<Rightarrow> AsmList option \<Rightarrow> mat_call list
     \<Rightarrow> error option \<times> AsmList option \<times> mat_call list" where
  \<comment> \<open>\<^verbatim>\<open>for (j = 0; j < an->cnt; j++) { if(an->dof[j] >= 0) {...} delete an; }\<close>:
      the condition reads \<open>an\<close>, and the body ends by deleting it.\<close>
  "dg_loop_j blocks_m_el blocks_el_m am_dof j an calls =
     (case an of
        None \<Rightarrow> (Some UseAfterFree, an, calls)
      | Some an_dofs \<Rightarrow>
          if j < length an_dofs then
            dg_loop_j blocks_m_el blocks_el_m am_dof (j + 1) None
              (if an_dofs ! j \<ge> 0
               then calls
                    @ (if blocks_m_el then [M_pre_add_ij am_dof (an_dofs ! j)] else [])
                    @ (if blocks_el_m then [M_pre_add_ij (an_dofs ! j) am_dof] else [])
               else calls)
          else (None, an, calls))"
  by pat_completeness auto
termination
  by (relation "measure (\<lambda>(bme, bem, d, j, an, calls). case an of None \<Rightarrow> 0 | Some l \<Rightarrow> 1)") auto

fun dg_loop_i ::
  "bool \<Rightarrow> bool \<Rightarrow> AsmList \<Rightarrow> AsmList option \<Rightarrow> mat_call list
     \<Rightarrow> error option \<times> AsmList option \<times> mat_call list" where
  \<comment> \<open>\<^verbatim>\<open>for i < am->cnt: if(am->dof[i] >= 0) ...\<close>\<close>
  "dg_loop_i blocks_m_el blocks_el_m [] an calls = (None, an, calls)"
| "dg_loop_i blocks_m_el blocks_el_m (am_dof # am) an calls =
     (if am_dof \<ge> 0 then
        (case dg_loop_j blocks_m_el blocks_el_m am_dof 0 an calls of
           (Some err, an', calls') \<Rightarrow> (Some err, an', calls')
         | (None, an', calls') \<Rightarrow> dg_loop_i blocks_m_el blocks_el_m am an' calls')
      else dg_loop_i blocks_m_el blocks_el_m am an calls)"

definition neighbor_at :: "Element list list list \<Rightarrow> nat \<Rightarrow> nat \<Rightarrow> nat \<Rightarrow> error + Element" where
  \<comment> \<open>\<^verbatim>\<open>neighbor_elems_arrays[el][ed][neigh]\<close>\<close>
  "neighbor_at arrays el ed neigh =
     (case index_at arrays el of
        Inl err \<Rightarrow> Inl err
      | Inr row \<Rightarrow>
          (case index_at row ed of
             Inl err \<Rightarrow> Inl err
           | Inr ns \<Rightarrow> index_at ns neigh))"

definition count_at :: "nat list list \<Rightarrow> nat \<Rightarrow> nat \<Rightarrow> error + nat" where
  \<comment> \<open>\<^verbatim>\<open>neighbor_elems_counts[el][ed]\<close>\<close>
  "count_at counts el ed =
     (case index_at counts el of
        Inl err \<Rightarrow> Inl err
      | Inr row \<Rightarrow> index_at row ed)"

definition dg_pre_add ::
  "(nat \<Rightarrow> nat \<Rightarrow> bool) \<Rightarrow> Space list \<Rightarrow> Traverse_State \<Rightarrow> AsmList list
     \<Rightarrow> nat \<Rightarrow> nat \<Rightarrow> nat \<Rightarrow> nat \<Rightarrow> dg_state \<Rightarrow> error option \<times> dg_state" where
  \<comment> \<open>Lines 138 to 161: the guarded registration for one neighbour.\<close>
  "dg_pre_add blocks spaces current_state al m el ed neigh st =
     (if \<not> (blocks m el \<or> blocks el m) then (None, st)
      else (case elem_present current_state m of
              Inl err \<Rightarrow> (Some err, st)
            | Inr present_m \<Rightarrow>
                if \<not> present_m then (None, st)
                else (case index_at al m of
                        Inl err \<Rightarrow> (Some err, st)
                      | Inr am \<Rightarrow>
                          (case index_at spaces el of
                             Inl err \<Rightarrow> (Some err, st)
                           | Inr sp \<Rightarrow>
                               (case neighbor_elems_arrays st of
                                  None \<Rightarrow> (Some UseAfterFree, st)
                                | Some arrays \<Rightarrow>
                                    (case neighbor_at arrays el ed neigh of
                                       Inl err \<Rightarrow> (Some err, st)
                                     | Inr nb \<Rightarrow>
                                         (case dg_loop_i (blocks m el) (blocks el m) am
                                                 (Some (get_element_assembly_list sp nb)) (dg_calls st) of
                                            (fault, an', calls') \<Rightarrow>
                                              (fault, st\<lparr>dg_calls := calls'\<rparr>))))))))"

definition dg_deallocate :: "dg_state \<Rightarrow> error option \<times> dg_state" where
  \<comment> \<open>Lines 163 to 176: both arrays are deleted, inside the loop over \<open>neigh\<close>.\<close>
  "dg_deallocate st =
     (case neighbor_elems_arrays st of
        None \<Rightarrow> (Some UseAfterFree, st)
      | Some arrays \<Rightarrow>
          (case neighbor_elems_counts st of
             None \<Rightarrow> (Some UseAfterFree, st\<lparr>neighbor_elems_arrays := None\<rparr>)
           | Some counts \<Rightarrow>
               (None, st\<lparr>neighbor_elems_arrays := None, neighbor_elems_counts := None\<rparr>)))"

function dg_loop_neigh ::
  "(nat \<Rightarrow> nat \<Rightarrow> bool) \<Rightarrow> Space list \<Rightarrow> Traverse_State \<Rightarrow> AsmList list
     \<Rightarrow> nat \<Rightarrow> nat \<Rightarrow> nat \<Rightarrow> nat \<Rightarrow> dg_state \<Rightarrow> error option \<times> dg_state" where
  \<comment> \<open>\<^verbatim>\<open>for (neigh = 0; neigh < neighbor_elems_counts[el][ed]; neigh++)\<close>: the condition
      reads the array of counts before every round.\<close>
  "dg_loop_neigh blocks spaces current_state al m el ed neigh st =
     (case neighbor_elems_counts st of
        None \<Rightarrow> (Some UseAfterFree, st)
      | Some counts \<Rightarrow>
          (case count_at counts el ed of
             Inl err \<Rightarrow> (Some err, st)
           | Inr cnt \<Rightarrow>
               if neigh < cnt then
                 (case dg_pre_add blocks spaces current_state al m el ed neigh st of
                    (Some err, st1) \<Rightarrow> (Some err, st1)
                  | (None, st1) \<Rightarrow>
                      (case dg_deallocate st1 of
                         (Some err, st2) \<Rightarrow> (Some err, st2)
                       | (None, st2) \<Rightarrow>
                           dg_loop_neigh blocks spaces current_state al m el ed (neigh + 1) st2))
               else (None, st)))"
  by pat_completeness auto
termination
  by (relation "measure (\<lambda>(blocks, spaces, current_state, al, m, el, ed, neigh, st).
                   case neighbor_elems_counts st of None \<Rightarrow> 0 | Some c \<Rightarrow> 1)")
     (auto simp: dg_deallocate_def split: option.splits)

definition dg_branch ::
  "nat \<Rightarrow> (nat \<Rightarrow> nat \<Rightarrow> bool) \<Rightarrow> Space list \<Rightarrow> Traverse_State \<Rightarrow> AsmList list \<Rightarrow> mat_call list
     \<Rightarrow> error option \<times> mat_call list" where
  "dg_branch n_spaces blocks spaces current_state al calls =
     (case index_at (e current_state) 0 of
        Inl err \<Rightarrow> (Some err, calls)
      | Inr None \<Rightarrow> (Some NullDeref, calls)
      | Inr (Some e0) \<Rightarrow>
          (case neighbors_loop spaces current_state (nvert e0) [0..<n_spaces] of
             Inl err \<Rightarrow> (Some err, calls)
           | Inr arrays \<Rightarrow>
               (case for_loop [0..<n_spaces] (\<lambda>m.
                       for_loop [0..<n_spaces] (\<lambda>el.
                         for_loop [0..<nvert e0] (\<lambda>ed.
                           dg_loop_neigh blocks spaces current_state al m el ed 0)))
                       \<lparr>neighbor_elems_arrays = Some arrays,
                        neighbor_elems_counts = Some (map (map length) arrays),
                        dg_calls = calls\<rparr> of
                  (fault, st) \<Rightarrow> (fault, dg_calls st))))"

subsection \<open>\<^verbatim>\<open>prepare_sparse_structure\<close>\<close>

definition state_pass ::
  "nat \<Rightarrow> bool \<Rightarrow> (nat \<Rightarrow> nat \<Rightarrow> bool) \<Rightarrow> Space list \<Rightarrow> Traverse_State
     \<Rightarrow> AsmList list \<times> mat_call list \<Rightarrow> error option \<times> AsmList list \<times> mat_call list" where
  \<comment> \<open>The body of the loop over the states (lines 86 to 203); the array \<open>al\<close> is shared by
      all the states.\<close>
  "state_pass n_spaces dg blocks spaces current_state st =
     (case for_loop [0..<n_spaces] (assembly_list_step spaces current_state) (fst st) of
        (Some err, al) \<Rightarrow> (Some err, al, snd st)
      | (None, al) \<Rightarrow>
          (case (if dg then dg_branch n_spaces blocks spaces current_state al (snd st)
                 else (None, snd st)) of
             (Some err, calls) \<Rightarrow> (Some err, al, calls)
           | (None, calls) \<Rightarrow>
               (case local_blocks n_spaces blocks current_state al calls of
                  (fault, calls') \<Rightarrow> (fault, al, calls'))))"

definition create_matrix ::
  "Assembler \<Rightarrow> nat \<Rightarrow> Space list \<Rightarrow> Traverse_State list \<Rightarrow> mat_call list
     \<Rightarrow> error option \<times> mat_call list" where
  \<comment> \<open>Lines 77 to 209, "create the matrix from scratch". A default-constructed
      \<^verbatim>\<open>AsmList\<close> has \<^verbatim>\<open>cnt = 0\<close>.\<close>
  "create_matrix a ndof spaces states mat =
     (case wf a of
        None \<Rightarrow> (Some NullDeref, mat @ [M_free, M_prealloc ndof])
      | Some w \<Rightarrow>
          (case for_loop states
                  (state_pass (spaces_size a) (is_DG w) (get_blocks w (force_diagonal_blocks a)) spaces)
                  (replicate (spaces_size a) [], mat @ [M_free, M_prealloc ndof]) of
             (Some err, al, calls) \<Rightarrow> (Some err, calls)
           | (None, al, calls) \<Rightarrow> (None, calls @ [M_alloc])))"

definition prepare_sparse_structure ::
  "Assembler \<Rightarrow> mat_call list option \<Rightarrow> vec_call list option \<Rightarrow> Space list \<Rightarrow> Traverse_State list
     \<Rightarrow> error option \<times> Assembler \<times> mat_call list option \<times> vec_call list option" where
  \<comment> \<open>\<open>mat\<close> and \<open>rhs\<close> are the two target pointers, \<open>states\<close> the array of \<^verbatim>\<open>num_states\<close>
      states. At a fault the call stops with the targets as they are then.\<close>
  "prepare_sparse_structure a mat rhs spaces states =
     (let ndof = get_num_dofs spaces;
          mat1 = (case mat of
                    None \<Rightarrow> None
                  | Some m \<Rightarrow> if matrix_structure_reusable a then Some (m @ [M_zero]) else Some m);
          rhs1 = (case rhs of
                    None \<Rightarrow> None
                  | Some r \<Rightarrow>
                      if vector_structure_reusable a
                      then (if vec_length r = 0 then Some (r @ [V_alloc ndof]) else Some (r @ [V_zero]))
                      else Some r)
      in case (case mat1 of
                 None \<Rightarrow> (None, a, None)
               | Some m \<Rightarrow>
                   if \<not> matrix_structure_reusable a
                   then (case create_matrix (a\<lparr>matrix_structure_reusable := True\<rparr>) ndof spaces states m of
                           (fault, m') \<Rightarrow> (fault, a\<lparr>matrix_structure_reusable := True\<rparr>, Some m'))
                   else (None, a, Some m)) of
           (Some err, a1, mat2) \<Rightarrow> (Some err, a1, mat2, rhs1)
         | (None, a1, mat2) \<Rightarrow>
             (case rhs1 of
                None \<Rightarrow> (None, a1, mat2, None)
              | Some r \<Rightarrow>
                  if \<not> vector_structure_reusable a1
                  then (None, a1\<lparr>vector_structure_reusable := True\<rparr>, mat2, Some (r @ [V_alloc ndof]))
                  else (None, a1, mat2, Some r)))"

subsection \<open>\<^verbatim>\<open>set_spaces\<close>\<close>

definition set_spaces_step :: "Space list \<Rightarrow> nat \<Rightarrow> Assembler \<Rightarrow> error option \<times> Assembler" where
  \<comment> \<open>Lines 235 to 242, the body of the loop over the spaces.\<close>
  "set_spaces_step spacesToSet i a =
     (case index_at spacesToSet i of
        Inl err \<Rightarrow> (Some err, a)
      | Inr sp \<Rightarrow>
          (case sp_seq a of
             None \<Rightarrow> (Some NullDeref, a)
           | Some seqs \<Rightarrow>
               (case index_at seqs i of
                  Inl err \<Rightarrow> (Some err, a)
                | Inr old_sp_seq \<Rightarrow>
                    (None,
                     (if get_seq sp \<noteq> old_sp_seq
                      then a\<lparr>matrix_structure_reusable := False, vector_structure_reusable := False\<rparr>
                      else a)
                     \<lparr>sp_seq := Some (seqs[i := get_seq sp])\<rparr>))))"

definition calloc_bool :: "nat \<Rightarrow> bool list" where
  \<comment> \<open>\<^verbatim>\<open>(bool*)calloc(n, sizeof(bool))\<close>: \<open>n\<close> zero bytes.\<close>
  "calloc_bool n = replicate n False"

definition calloc_rows :: "nat \<Rightarrow> nat \<Rightarrow> bool list option list" where
  \<comment> \<open>\<^verbatim>\<open>(bool**)calloc(markers, sizeof(bool*))\<close>, \<open>markers\<close> null pointers, and then, if
      there are forms, a new zeroed row for every marker (no row of the new array is
      non-null before, so none is freed).\<close>
  "calloc_rows markers forms_size =
     (if forms_size > 0
      then fold (\<lambda>i rows. rows[i := Some (calloc_bool forms_size)]) [0..<markers] (replicate markers None)
      else replicate markers None)"

definition resize_surface :: "nat \<Rightarrow> Assembler \<Rightarrow> Assembler" where
  \<comment> \<open>Lines 248 to 289; the old arrays are freed and nothing of them is read.\<close>
  "resize_surface markers a =
     a\<lparr>surface_markers_size := markers,
       matrix_surface_recalculation := Some (calloc_bool markers),
       vector_surface_recalculation := Some (calloc_bool markers),
       matrix_surface_forms_recalculation := Some (calloc_rows markers (mfsurf_forms_size a)),
       vector_surface_forms_recalculation := Some (calloc_rows markers (vfsurf_forms_size a))\<rparr>"

definition resize_volume :: "nat \<Rightarrow> Assembler \<Rightarrow> Assembler" where
  \<comment> \<open>Lines 294 to 335.\<close>
  "resize_volume markers a =
     a\<lparr>volume_markers_size := markers,
       matrix_volume_recalculation := Some (calloc_bool markers),
       vector_volume_recalculation := Some (calloc_bool markers),
       matrix_volume_forms_recalculation := Some (calloc_rows markers (mfvol_forms_size a)),
       vector_volume_forms_recalculation := Some (calloc_rows markers (vfvol_forms_size a))\<rparr>"

definition set_spaces :: "Assembler \<Rightarrow> Space list \<Rightarrow> error option \<times> Assembler" where
  \<comment> \<open>\<^verbatim>\<open>memset(sp_seq, -1, ...)\<close> sets every byte to \<^verbatim>\<open>0xFF\<close>, so every \<^verbatim>\<open>int\<close> reads \<open>-1\<close>.
      Both marker sizes are compared with \<open>min_marker_unused\<close> of the boundary markers of
      the first space's mesh, as in the source.\<close>
  "set_spaces a spacesToSet =
     (case (case sp_seq a of
              None \<Rightarrow>
                (None, a\<lparr>spaces_size := length spacesToSet,
                          sp_seq := Some (replicate (length spacesToSet) (- 1))\<rparr>)
            | Some seqs \<Rightarrow> for_loop [0..<spaces_size a] (set_spaces_step spacesToSet) a) of
        (Some err, a1) \<Rightarrow> (Some err, a1)
      | (None, a1) \<Rightarrow>
          (case index_at spacesToSet 0 of
             Inl err \<Rightarrow> (Some err, a1)
           | Inr sp0 \<Rightarrow>
               (let a2 = (if min_marker_unused sp0 \<noteq> surface_markers_size a1
                          then resize_surface (min_marker_unused sp0) a1 else a1);
                    a3 = (if min_marker_unused sp0 \<noteq> volume_markers_size a2
                          then resize_volume (min_marker_unused sp0) a2 else a2)
                in (None, a3))))"

subsection \<open>\<^verbatim>\<open>set_weak_formulation\<close>\<close>

definition resize_rows ::
  "nat \<Rightarrow> nat \<Rightarrow> bool list option list option \<Rightarrow> error option \<times> bool list option list option" where
  \<comment> \<open>\<^verbatim>\<open>for i < markers: { if(rows[i]) free(rows[i]); rows[i] = (bool*)calloc(forms_size, sizeof(bool)); }\<close>\<close>
  "resize_rows markers forms_size rows =
     for_loop [0..<markers]
       (\<lambda>i rows. case rows of
                    None \<Rightarrow> (Some NullDeref, rows)
                  | Some rs \<Rightarrow>
                      if i < length rs then (None, Some (rs[i := Some (calloc_bool forms_size)]))
                      else (Some OutOfBounds, rows))
       rows"

definition set_weak_formulation :: "Assembler \<Rightarrow> WeakForm \<Rightarrow> error option \<times> Assembler" where
  "set_weak_formulation a0 new_wf =
     (let a = a0\<lparr>wf := Some new_wf, matrix_structure_reusable := False, vector_structure_reusable := False\<rparr>
      in if spaces_size a = 0 then (None, a)
         else
           (case (if length (mfvol new_wf) \<noteq> mfvol_forms_size a
                  then (case resize_rows (volume_markers_size a) (length (mfvol new_wf))
                               (matrix_volume_forms_recalculation a) of
                          (fault, rows) \<Rightarrow>
                            (fault, a\<lparr>mfvol_forms_size := length (mfvol new_wf),
                                      matrix_volume_forms_recalculation := rows\<rparr>))
                  else (None, a)) of
              (Some err, a1) \<Rightarrow> (Some err, a1)
            | (None, a1) \<Rightarrow>
           (case (if length (vfvol new_wf) \<noteq> vfvol_forms_size a1
                  then (case resize_rows (volume_markers_size a1) (length (vfvol new_wf))
                               (vector_volume_forms_recalculation a1) of
                          (fault, rows) \<Rightarrow>
                            (fault, a1\<lparr>vfvol_forms_size := length (vfvol new_wf),
                                       vector_volume_forms_recalculation := rows\<rparr>))
                  else (None, a1)) of
              (Some err, a2) \<Rightarrow> (Some err, a2)
            | (None, a2) \<Rightarrow>
           (case (if length (mfsurf new_wf) \<noteq> mfsurf_forms_size a2
                  then (case resize_rows (surface_markers_size a2) (length (mfsurf new_wf))
                               (matrix_surface_forms_recalculation a2) of
                          (fault, rows) \<Rightarrow>
                            (fault, a2\<lparr>mfsurf_forms_size := length (mfsurf new_wf),
                                       matrix_surface_forms_recalculation := rows\<rparr>))
                  else (None, a2)) of
              (Some err, a3) \<Rightarrow> (Some err, a3)
            | (None, a3) \<Rightarrow>
                (if length (vfsurf new_wf) \<noteq> vfsurf_forms_size a3
                 then (case resize_rows (surface_markers_size a3) (length (vfsurf new_wf))
                              (vector_surface_forms_recalculation a3) of
                         (fault, rows) \<Rightarrow>
                           (fault, a3\<lparr>vfsurf_forms_size := length (vfsurf new_wf),
                                      vector_surface_forms_recalculation := rows\<rparr>))
                 else (None, a3))))))"

subsection \<open>Notions used to state the properties\<close>

definition unconstrained :: "AsmList \<Rightarrow> int list" where
  \<comment> \<open>The dofs of an assembly list that are not the negative sentinel.\<close>
  "unconstrained al = filter (\<lambda>d. 0 \<le> d) al"

definition nonneg_call :: "mat_call \<Rightarrow> bool" where
  "nonneg_call c = (case c of M_pre_add_ij r c \<Rightarrow> 0 \<le> r \<and> 0 \<le> c | _ \<Rightarrow> True)"

definition extends :: "mat_call list \<Rightarrow> mat_call list \<Rightarrow> bool" where
  \<comment> \<open>\<open>after\<close> is \<open>before\<close> followed by calls whose coordinates are not negative.\<close>
  "extends before after =
     (take (length before) after = before \<and> list_all nonneg_call (drop (length before) after))"

definition sizes :: "Assembler \<Rightarrow> nat \<times> nat \<times> nat \<times> nat \<times> nat \<times> nat" where
  "sizes a = (surface_markers_size a, volume_markers_size a, mfvol_forms_size a,
              vfvol_forms_size a, mfsurf_forms_size a, vfsurf_forms_size a)"

subsection \<open>A small problem: two spaces on one triangle\<close>

text \<open>
  Element 0 is a triangle whose edge 0 is interior (marker 0) and whose edge 1 lies on the
  boundary (marker 2); across edge 0 it has the two neighbours 1 and 2 (a hanging node).
  The first space has the dofs 0, 1, 2 on the element, the second the dofs 3 and 4 and one
  constrained dof.
\<close>

definition ex_el :: "nat \<Rightarrow> Element" where
  "ex_el k = \<lparr>el_id = k, nvert = 3, marker = 1,
             en = [\<lparr>node_marker = 0\<rparr>, \<lparr>node_marker = 2\<rparr>, \<lparr>node_marker = 0\<rparr>]\<rparr>"

definition ex_form :: "nat \<Rightarrow> nat \<Rightarrow> real \<Rightarrow> MatrixForm" where
  "ex_form m n c = \<lparr>scaling_factor = c, assembleEverywhere = True, areas_internal = [],
                    form_i = m, form_j = n\<rparr>"


definition ex_wf :: "bool \<Rightarrow> WeakForm" where
  "ex_wf dg = \<lparr>mfvol = [ex_form 0 0 1, ex_form 0 1 1, ex_form 1 0 1, ex_form 1 1 1],
              vfvol = [], mfsurf = [], vfsurf = [], is_DG = dg,
              get_blocks = (\<lambda>force m n. True)\<rparr>"

definition ex_space :: "int \<Rightarrow> (nat \<Rightarrow> AsmList) \<Rightarrow> nat \<Rightarrow> Space" where
  "ex_space sq dofs nd = \<lparr>get_seq = sq, num_dofs = nd, min_marker_unused = 3,
       get_element_assembly_list = (\<lambda>el. dofs (el_id el)),
       get_neighbors = (\<lambda>central ed. case central of
                          None \<Rightarrow> []
                        | Some c \<Rightarrow> if el_id c = 0 \<and> ed = 0 then [ex_el 1, ex_el 2] else [])\<rparr>"

definition ex_spaces :: "Space list" where
  "ex_spaces = [ex_space 4 (\<lambda>k. [0, 1, 2]) 3, ex_space 7 (\<lambda>k. [3, - 1, 4]) 2]"

definition ex_spaces_refined :: "Space list" where
  \<comment> \<open>The same spaces after the first one was changed: its sequence number is now 5.\<close>
  "ex_spaces_refined = [ex_space 5 (\<lambda>k. [0, 1, 2]) 3, ex_space 7 (\<lambda>k. [3, - 1, 4]) 2]"

definition ex_state :: Traverse_State where
  "ex_state = \<lparr>e = [Some (ex_el 0), Some (ex_el 0)], rep = ex_el 0, isurf = 0\<rparr>"

definition ex_asm :: "bool \<Rightarrow> Assembler" where
  "ex_asm dg = DiscreteProblemSelectiveAssembler
     \<lparr>sp_seq := Some [4, 7], spaces_size := 2, wf := Some (ex_wf dg)\<rparr>"

definition ex_a1 :: Assembler where
  "ex_a1 = (ex_asm False)\<lparr>matrix_structure_reusable := True, vector_structure_reusable := True\<rparr>"

definition ex_a2 :: Assembler where
  "ex_a2 = resize_volume 3 (resize_surface 3 ex_a1)"

definition ex_trace :: "mat_call list" where
  "ex_trace = [M_free, M_prealloc 5,
       M_pre_add_ij 0 0, M_pre_add_ij 0 1, M_pre_add_ij 0 2,
       M_pre_add_ij 1 0, M_pre_add_ij 1 1, M_pre_add_ij 1 2,
       M_pre_add_ij 2 0, M_pre_add_ij 2 1, M_pre_add_ij 2 2,
       M_pre_add_ij 0 3, M_pre_add_ij 0 4, M_pre_add_ij 1 3, M_pre_add_ij 1 4,
       M_pre_add_ij 2 3, M_pre_add_ij 2 4,
       M_pre_add_ij 3 0, M_pre_add_ij 3 1, M_pre_add_ij 3 2,
       M_pre_add_ij 4 0, M_pre_add_ij 4 1, M_pre_add_ij 4 2,
       M_pre_add_ij 3 3, M_pre_add_ij 3 4, M_pre_add_ij 4 3, M_pre_add_ij 4 4,
       M_alloc]"

definition ex_asm_stale :: Assembler where
  \<comment> \<open>An assembler that knows two markers and four volume matrix forms, every flag set.\<close>
  "ex_asm_stale = ex_a1
     \<lparr>mfvol_forms_size := 4, surface_markers_size := 2, volume_markers_size := 2,
      matrix_surface_recalculation := Some [True, True],
      vector_surface_recalculation := Some [True, True],
      matrix_surface_forms_recalculation := Some [None, None],
      vector_surface_forms_recalculation := Some [None, None],
      matrix_volume_recalculation := Some [True, True],
      vector_volume_recalculation := Some [True, True],
      matrix_volume_forms_recalculation :=
        Some [Some [True, True, True, True], Some [True, True, True, True]],
      vector_volume_forms_recalculation := Some [None, None]\<rparr>"

text \<open>The DG variant: one space, whose dof on element \<open>k\<close> is \<open>k\<close>.\<close>

definition ex_dg_spaces :: "Space list" where
  "ex_dg_spaces = [ex_space 4 (\<lambda>k. [int k]) 3]"

definition ex_dg_asm :: Assembler where
  "ex_dg_asm = DiscreteProblemSelectiveAssembler
     \<lparr>sp_seq := Some [4], spaces_size := 1, wf := Some (ex_wf True)\<rparr>"

definition ex_dg_state :: Traverse_State where
  "ex_dg_state = \<lparr>e = [Some (ex_el 0)], rep = ex_el 0, isurf = 0\<rparr>"

subsection \<open>Two further runs\<close>





text \<open>
  A new assembler with its weak formulation set and no spaces yet (\<open>ex_asm0\<close>), and its
  states after the first \<^verbatim>\<open>set_spaces\<close> (\<open>ex_b1\<close>), the first \<^verbatim>\<open>prepare_sparse_structure\<close>
  (\<open>ex_b2\<close>), the second \<^verbatim>\<open>set_spaces\<close> on the same spaces (\<open>ex_b3\<close>) and the second
  \<^verbatim>\<open>prepare_sparse_structure\<close> (\<open>ex_b4\<close>).
\<close>

definition ex_asm0 :: Assembler where
  "ex_asm0 = DiscreteProblemSelectiveAssembler\<lparr>wf := Some (ex_wf False)\<rparr>"

definition ex_b1 :: Assembler where
  "ex_b1 = resize_volume 3 (resize_surface 3 (ex_asm0\<lparr>spaces_size := 2, sp_seq := Some [- 1, - 1]\<rparr>))"

definition ex_b2 :: Assembler where
  "ex_b2 = ex_b1\<lparr>matrix_structure_reusable := True, vector_structure_reusable := True\<rparr>"

definition ex_b3 :: Assembler where
  "ex_b3 = ex_b2\<lparr>matrix_structure_reusable := False, vector_structure_reusable := False,
                 sp_seq := Some [4, 7]\<rparr>"

definition ex_b4 :: Assembler where
  "ex_b4 = ex_b3\<lparr>matrix_structure_reusable := True, vector_structure_reusable := True\<rparr>"

section \<open>Properties\<close>

declare dg_loop_j.simps [simp del]
declare dg_loop_neigh.simps [simp del]

lemma upt_0_2: "[0..<2] = [0, 1]"
  by (simp add: upt_rec)

lemma upt_0_3: "[0..<3] = [0, 1, 2]" by (simp add: upt_rec)

lemmas ex_defs = ex_el_def ex_form_def ex_wf_def ex_space_def ex_spaces_def ex_state_def ex_asm_def
  DiscreteProblemSelectiveAssembler_def

lemmas ex_defs2 = ex_defs ex_a1_def ex_trace_def

lemmas run_defs = prepare_sparse_structure_def create_matrix_def state_pass_def
  assembly_list_step_def local_blocks_def local_block_def elem_present_def index_at_def
  get_num_dofs_def upt_0_2 Let_def

subsection \<open>Loops\<close>

lemma for_loop_append:
  "for_loop (xs @ ys) body s =
     (case for_loop xs body s of (Some err, s') \<Rightarrow> (Some err, s') | (None, s') \<Rightarrow> for_loop ys body s')"
  by (induction xs arbitrary: s) (auto split: prod.splits option.splits)

lemma for_loop_rel:
  assumes step: "\<And>k s. k \<in> set ks \<Longrightarrow> R s (snd (body k s))"
    and refl: "\<And>s. R s s"
    and trans: "\<And>s t u. R s t \<Longrightarrow> R t u \<Longrightarrow> R s u"
  shows "R s (snd (for_loop ks body s))"
  using step
proof (induction ks arbitrary: s)
  case Nil
  then show ?case by (simp add: refl)
next
  case (Cons k ks)
  have 1: "R s (snd (body k s))" using Cons.prems by simp
  have 2: "R (snd (body k s)) (snd (for_loop ks body (snd (body k s))))"
    using Cons.IH Cons.prems by simp
  show ?case
  proof (cases "body k s")
    case (Pair f s')
    then show ?thesis using 1 2 trans by (cases f) auto
  qed
qed

lemma for_loop_same:
  assumes "\<And>k s s'. body k s = (None, s') \<Longrightarrow> g s' = g s"
  shows "for_loop ks body s = (None, s') \<Longrightarrow> g s' = g s"
proof (induction ks arbitrary: s)
  case Nil
  then show ?case by simp
next
  case (Cons k ks)
  obtain f s1 where b: "body k s = (f, s1)" by (metis surj_pair)
  show ?case
  proof (cases f)
    case None
    then have "g s1 = g s" using assms b by simp
    moreover have "g s' = g s1" using Cons b None by simp
    ultimately show ?thesis by simp
  next
    case (Some err)
    then show ?thesis using Cons.prems b by simp
  qed
qed

lemma for_loop_id:
  assumes "\<And>k s s'. body k s = (None, s') \<Longrightarrow> s' = s"
    and "for_loop ks body s = (None, s')"
  shows "s' = s"
  using for_loop_same [where g = "\<lambda>s. s" and body = body, OF assms(1) assms(2)] by simp

subsection \<open>Every loop only appends registrations of non-negative coordinates\<close>

lemma extends_iff: "extends c c' \<longleftrightarrow> (\<exists>new. c' = c @ new \<and> list_all nonneg_call new)"
  unfolding extends_def
  by (metis append_eq_conv_conj)

lemma extends_refl: "extends c c"
  by (simp add: extends_iff)

lemma extends_trans: "extends a b \<Longrightarrow> extends b c \<Longrightarrow> extends a c"
  by (auto simp: extends_iff)

lemma extends_app: "list_all nonneg_call new \<Longrightarrow> extends c (c @ new)"
  by (auto simp: extends_iff)

lemma for_loop_extends:
  assumes "\<And>k s. extends (g s) (g (snd (body k s)))"
  shows "extends (g s) (g (snd (for_loop ks body s)))"
proof (rule for_loop_rel [where R = "\<lambda>s t. extends (g s) (g t)"])
  show "\<And>k s. extends (g s) (g (snd (body k s)))" by (rule assms)
  show "\<And>s. extends (g s) (g s)" by (rule extends_refl)
  show "\<And>s t u. extends (g s) (g t) \<Longrightarrow> extends (g t) (g u) \<Longrightarrow> extends (g s) (g u)"
    by (rule extends_trans)
qed

lemma local_loop_j_eq:
  "local_loop_j d an calls = calls @ map (M_pre_add_ij d) (filter (\<lambda>x. 0 \<le> x) an)"
  by (induction an arbitrary: calls) auto

lemma local_loop_i_eq:
  "local_loop_i am an calls =
     calls @ concat (map (\<lambda>d. map (M_pre_add_ij d) (filter (\<lambda>x. 0 \<le> x) an)) (filter (\<lambda>x. 0 \<le> x) am))"
  by (induction am arbitrary: calls) (auto simp: local_loop_j_eq)

lemma local_loop_i_extends: "extends calls (local_loop_i am an calls)"
  unfolding local_loop_i_eq
  by (rule extends_app) (auto simp: list_all_iff nonneg_call_def)

lemma local_block_extends: "extends calls (snd (local_block blocks s al m n calls))"
  by (auto simp: local_block_def extends_refl local_loop_i_extends split: sum.splits)

lemma local_blocks_extends: "extends calls (snd (local_blocks k blocks s al calls))"
  unfolding local_blocks_def
  by (rule for_loop_extends [where g = "\<lambda>c. c"], rule for_loop_extends [where g = "\<lambda>c. c"])
     (rule local_block_extends)

lemma dg_loop_j_extends:
  "0 \<le> d \<Longrightarrow> extends calls (snd (snd (dg_loop_j bme bem d j an calls)))"
proof (induction bme bem d j an calls rule: dg_loop_j.induct)
  case (1 bme bem d j an calls)
  show ?case
  proof (cases an)
    case None
    then show ?thesis by (simp add: dg_loop_j.simps extends_refl)
  next
    case (Some l)
    show ?thesis
    proof (cases "j < length l")
      case True
      let ?c = "(if l ! j \<ge> 0
               then calls
                    @ (if bme then [M_pre_add_ij d (l ! j)] else [])
                    @ (if bem then [M_pre_add_ij (l ! j) d] else [])
               else calls)"
      have a: "extends calls ?c"
        using 1 by (auto simp: extends_iff nonneg_call_def)
      have b: "extends ?c (snd (snd (dg_loop_j bme bem d (j + 1) None ?c)))"
        using 1 Some True by simp
      show ?thesis
        using extends_trans [OF a b] Some True by (subst dg_loop_j.simps) simp
    next
      case False
      then show ?thesis using Some by (simp add: dg_loop_j.simps extends_refl)
    qed
  qed
qed

lemma dg_loop_i_extends:
  "extends calls (snd (snd (dg_loop_i bme bem am an calls)))"
proof (induction am arbitrary: an calls)
  case Nil
  then show ?case by (simp add: extends_refl)
next
  case (Cons d am)
  show ?case
  proof (cases "0 \<le> d")
    case True
    obtain f an' calls' where r: "dg_loop_j bme bem d 0 an calls = (f, an', calls')"
      by (cases "dg_loop_j bme bem d 0 an calls") auto
    have a: "extends calls calls'" using dg_loop_j_extends [OF True, of calls bme bem 0 an] r by simp
    show ?thesis
    proof (cases f)
      case None
      then show ?thesis using True r a Cons.IH [of calls' an'] by (auto intro: extends_trans)
    next
      case (Some err)
      then show ?thesis using True r a by simp
    qed
  next
    case False
    then show ?thesis using Cons.IH by simp
  qed
qed

lemma dg_loop_i_extends_result:
  "dg_loop_i bme bem am an calls = (f, an', calls') \<Longrightarrow> extends calls calls'"
  using dg_loop_i_extends [of calls bme bem am an] by simp

lemma dg_pre_add_extends:
  "extends (dg_calls st) (dg_calls (snd (dg_pre_add blocks spaces s al m el ed neigh st)))"
  by (auto simp: dg_pre_add_def extends_refl split: sum.splits option.splits prod.splits
           dest: dg_loop_i_extends_result)

lemma dg_deallocate_calls: "dg_calls (snd (dg_deallocate st)) = dg_calls st"
  by (auto simp: dg_deallocate_def split: option.splits)

lemma dg_loop_neigh_extends:
  "extends (dg_calls st) (dg_calls (snd (dg_loop_neigh blocks spaces s al m el ed neigh st)))"
proof (induction blocks spaces s al m el ed neigh st rule: dg_loop_neigh.induct)
  case (1 blocks spaces s al m el ed neigh st)
  show ?case
  proof (cases "neighbor_elems_counts st")
    case None
    then show ?thesis by (simp add: dg_loop_neigh.simps extends_refl)
  next
    case (Some counts)
    show ?thesis
    proof (cases "count_at counts el ed")
      case (Inl err)
      then show ?thesis using Some by (simp add: dg_loop_neigh.simps extends_refl)
    next
      case (Inr cnt)
      show ?thesis
      proof (cases "neigh < cnt")
        case False
        then show ?thesis using Some Inr by (simp add: dg_loop_neigh.simps extends_refl)
      next
        case True
        obtain f1 st1 where p: "dg_pre_add blocks spaces s al m el ed neigh st = (f1, st1)"
          by (cases "dg_pre_add blocks spaces s al m el ed neigh st") auto
        have a: "extends (dg_calls st) (dg_calls st1)"
          using dg_pre_add_extends [of st blocks spaces s al m el ed neigh] p by simp
        show ?thesis
        proof (cases f1)
          case (Some err)
          then show ?thesis using \<open>neighbor_elems_counts st = Some counts\<close> Inr True p a
            by (simp add: dg_loop_neigh.simps)
        next
          case None
          obtain f2 st2 where d: "dg_deallocate st1 = (f2, st2)"
            by (cases "dg_deallocate st1") auto
          have b: "dg_calls st2 = dg_calls st1" using dg_deallocate_calls [of st1] d by simp
          show ?thesis
          proof (cases f2)
            case (Some err)
            then show ?thesis using \<open>neighbor_elems_counts st = Some counts\<close> Inr True p a None d b
              by (simp add: dg_loop_neigh.simps)
          next
            case None2: None
            have "extends (dg_calls st2)
                   (dg_calls (snd (dg_loop_neigh blocks spaces s al m el ed (neigh + 1) st2)))"
              using "1.IH" [OF \<open>neighbor_elems_counts st = Some counts\<close> Inr True _ _ _ _]
                p None d None2 by simp
            then show ?thesis
              using \<open>neighbor_elems_counts st = Some counts\<close> Inr True p a None d b None2
              by (subst dg_loop_neigh.simps) (auto intro: extends_trans)
          qed
        qed
      qed
    qed
  qed
qed

lemma dg_branch_extends: "extends calls (snd (dg_branch k blocks spaces s al calls))"
proof -
  have "extends (dg_calls st)
     (dg_calls (snd (for_loop [0..<k] (\<lambda>m.
                       for_loop [0..<k] (\<lambda>el.
                         for_loop [0..<n] (\<lambda>ed.
                           dg_loop_neigh blocks spaces s al m el ed 0))) st)))" for st n
    by (intro for_loop_extends [where g = dg_calls] dg_loop_neigh_extends)
  then show ?thesis
    by (auto simp: dg_branch_def extends_refl split: sum.splits option.splits prod.splits)
      (metis dg_state.select_convs(3) snd_conv)
qed

lemma state_pass_extends:
  "extends (snd st) (snd (snd (state_pass k dg blocks spaces s st)))"
proof -
  obtain f1 al where 1: "for_loop [0..<k] (assembly_list_step spaces s) (fst st) = (f1, al)"
    by (cases "for_loop [0..<k] (assembly_list_step spaces s) (fst st)") auto
  obtain f2 c2 where 2:
    "(if dg then dg_branch k blocks spaces s al (snd st) else (None, snd st)) = (f2, c2)"
    by (cases "if dg then dg_branch k blocks spaces s al (snd st) else (None, snd st)") auto
  obtain f3 c3 where 3: "local_blocks k blocks s al c2 = (f3, c3)"
    by (cases "local_blocks k blocks s al c2") auto
  have a: "extends (snd st) c2"
    using 2 dg_branch_extends [of "snd st" k blocks spaces s al]
    by (auto simp: extends_refl split: if_splits)
  have b: "extends c2 c3"
    using 3 local_blocks_extends [of c2 k blocks s al] by simp
  show ?thesis
    unfolding state_pass_def using 1 2 3 a b
    by (cases f1; cases f2) (auto simp: extends_refl intro: extends_trans)
qed

lemma create_matrix_shape:
  assumes "create_matrix a ndof spaces states mat = (f, m')"
  shows "\<exists>regs. list_all nonneg_call regs \<and>
           m' = mat @ [M_free, M_prealloc ndof] @ regs @ (if f = None then [M_alloc] else [])"
proof (cases "wf a")
  case None
  then show ?thesis using assms by (auto simp: create_matrix_def)
next
  case (Some w)
  let ?body = "state_pass (spaces_size a) (is_DG w) (get_blocks w (force_diagonal_blocks a)) spaces"
  let ?init = "(replicate (spaces_size a) [] :: AsmList list, mat @ [M_free, M_prealloc ndof])"
  obtain f1 al calls where r: "for_loop states ?body ?init = (f1, al, calls)"
    by (cases "for_loop states ?body ?init") auto
  have "extends (snd ?init) (snd (snd (for_loop states ?body ?init)))"
    by (rule for_loop_extends [where g = snd]) (rule state_pass_extends)
  then obtain regs where regs: "calls = (mat @ [M_free, M_prealloc ndof]) @ regs" "list_all nonneg_call regs"
    using r by (auto simp: extends_iff)
  show ?thesis
    using Some r regs assms by (cases f1) (auto simp: create_matrix_def)
qed

subsection \<open>The DG branch registers nothing unless it faults\<close>

text \<open>
  The loop over \<open>j\<close> deletes the neighbour's list in its body and reads it in its
  condition, and the loop over \<open>neigh\<close> deletes the arrays it is bounded by. So a run of
  the branch that reaches its end has entered neither body.
\<close>

lemma dg_loop_j_same:
  "dg_loop_j bme bem d j an calls = (None, an', calls') \<Longrightarrow> calls' = calls \<and> an' = an"
  by (subst (asm) dg_loop_j.simps)
     (auto simp: dg_loop_j.simps [of _ _ _ _ None] split: option.splits if_splits)

lemma dg_loop_i_same:
  "dg_loop_i bme bem am an calls = (None, an', calls') \<Longrightarrow> calls' = calls"
proof (induction am)
  case Nil
  then show ?case by simp
next
  case (Cons d am)
  then show ?case
    by (auto split: if_splits prod.splits option.splits dest!: dg_loop_j_same)
qed

lemma dg_pre_add_same:
  "dg_pre_add blocks spaces s al m el ed neigh st = (None, st') \<Longrightarrow> dg_calls st' = dg_calls st"
  by (auto simp: dg_pre_add_def split: sum.splits option.splits prod.splits if_splits
           dest: dg_loop_i_same)

lemma dg_loop_neigh_freed:
  "neighbor_elems_counts st = None \<Longrightarrow>
   dg_loop_neigh blocks spaces s al m el ed neigh st = (Some UseAfterFree, st)"
  by (simp add: dg_loop_neigh.simps)

lemma dg_loop_neigh_same:
  "dg_loop_neigh blocks spaces s al m el ed neigh st = (None, st') \<Longrightarrow> st' = st"
  by (subst (asm) dg_loop_neigh.simps)
     (auto simp: dg_loop_neigh_freed dg_deallocate_def
           split: sum.splits option.splits prod.splits if_splits)

lemma dg_branch_same:
  assumes "dg_branch k blocks spaces s al calls = (None, calls')"
  shows "calls' = calls"
proof -
  have ed: "st' = st"
    if h: "for_loop eds (\<lambda>ed. dg_loop_neigh blocks spaces s al m el ed 0) st = (None, st')"
    for eds m el st st'
    by (rule for_loop_id [OF _ h]) (erule dg_loop_neigh_same)
  have el: "st' = st"
    if h: "for_loop els (\<lambda>el. for_loop eds (\<lambda>ed. dg_loop_neigh blocks spaces s al m el ed 0)) st
            = (None, st')"
    for els eds m st st'
    by (rule for_loop_id [OF _ h]) (erule ed)
  have m: "st' = st"
    if h: "for_loop ms (\<lambda>m. for_loop els (\<lambda>el.
             for_loop eds (\<lambda>ed. dg_loop_neigh blocks spaces s al m el ed 0))) st = (None, st')"
    for ms els eds st st'
    by (rule for_loop_id [OF _ h]) (erule el)
  show ?thesis
    using assms
    by (auto simp: dg_branch_def split: sum.splits option.splits prod.splits dest!: m)
qed

subsection \<open>The branches of \<^verbatim>\<open>prepare_sparse_structure\<close>\<close>

lemma prepare_reuse:
  assumes "mat = None \<or> matrix_structure_reusable a"
    and "rhs = None \<or> vector_structure_reusable a"
  shows "prepare_sparse_structure a mat rhs spaces states =
           (None, a,
            (if matrix_structure_reusable a then map_option (\<lambda>m. m @ [M_zero]) mat else mat),
            (if vector_structure_reusable a
             then map_option (\<lambda>r. r @ [if vec_length r = 0 then V_alloc (get_num_dofs spaces) else V_zero]) rhs
             else rhs))"
  using assms
  by (auto simp: prepare_sparse_structure_def Let_def split: option.splits)

lemma prepare_result:
  assumes "prepare_sparse_structure a mat rhs spaces states = (f, a', mat', rhs')"
  shows "(mat = None \<longleftrightarrow> mat' = None) \<and> (rhs = None \<longleftrightarrow> rhs' = None) \<and>
         (f = None \<longrightarrow>
            matrix_structure_reusable a' = (matrix_structure_reusable a \<or> mat \<noteq> None) \<and>
            vector_structure_reusable a' = (vector_structure_reusable a \<or> rhs \<noteq> None))"
  using assms
  by (auto simp: prepare_sparse_structure_def Let_def split: option.splits prod.splits if_splits)

lemma prepare_rebuild_matrix:
  assumes "\<not> matrix_structure_reusable a"
    and "prepare_sparse_structure a (Some m) rhs spaces states = (f, a', mat', rhs')"
  shows "\<exists>regs. list_all nonneg_call regs \<and>
           mat' = Some (m @ [M_free, M_prealloc (get_num_dofs spaces)] @ regs
                          @ (if f = None then [M_alloc] else []))"
proof -
  obtain f1 m1 where c: "create_matrix (a\<lparr>matrix_structure_reusable := True\<rparr>)
                           (get_num_dofs spaces) spaces states m = (f1, m1)"
    by (metis surj_pair)
  have "f = f1 \<and> mat' = Some m1"
    using assms c
    by (cases f1) (auto simp: prepare_sparse_structure_def Let_def split: option.splits if_splits)
  then show ?thesis using create_matrix_shape [OF c] by simp
qed

lemma prepare_rebuild_vector:
  assumes "\<not> vector_structure_reusable a"
    and "prepare_sparse_structure a mat (Some r) spaces states = (None, a', mat', rhs')"
  shows "rhs' = Some (r @ [V_alloc (get_num_dofs spaces)])"
  using assms
  by (auto simp: prepare_sparse_structure_def Let_def split: option.splits prod.splits if_splits)

lemma vec_length_snoc:
  "vec_length (r @ [V_alloc n]) = n" "vec_length (r @ [V_zero]) = vec_length r"
  by (simp_all add: vec_length_def)

lemma prepare_vec_length:
  assumes "prepare_sparse_structure a mat rhs spaces states = (None, a', mat', Some r')"
    and "0 < get_num_dofs spaces"
  shows "vec_length r' \<noteq> 0"
  using assms
  by (auto simp: prepare_sparse_structure_def Let_def vec_length_snoc
           split: option.splits prod.splits if_splits)

lemma sparsity_pattern_zero: "sparsity_pattern (m @ [M_zero]) = sparsity_pattern m"
  by (simp add: sparsity_pattern_def split: prod.splits) (metis mat_step.simps(1) prod.collapse)


subsection \<open>\<^verbatim>\<open>set_spaces\<close>\<close>

lemma set_spaces_step_ok:
  assumes "sp_seq a = Some seqs" "i < length seqs" "i < length sps"
  shows "set_spaces_step sps i a =
    (None, a\<lparr>matrix_structure_reusable := matrix_structure_reusable a \<and> get_seq (sps ! i) = seqs ! i,
              vector_structure_reusable := vector_structure_reusable a \<and> get_seq (sps ! i) = seqs ! i,
              sp_seq := Some (seqs[i := get_seq (sps ! i)])\<rparr>)"
  using assms by (simp add: set_spaces_step_def index_at_def)

lemma set_spaces_loop:
  assumes "sp_seq a = Some seqs" "k \<le> length seqs" "k \<le> length sps"
  shows "for_loop [0..<k] (set_spaces_step sps) a =
    (None, a\<lparr>matrix_structure_reusable :=
                matrix_structure_reusable a \<and> (\<forall>i<k. get_seq (sps ! i) = seqs ! i),
              vector_structure_reusable :=
                vector_structure_reusable a \<and> (\<forall>i<k. get_seq (sps ! i) = seqs ! i),
              sp_seq := Some (map get_seq (take k sps) @ drop k seqs)\<rparr>)"
  using assms(2,3)
proof (induction k)
  case 0
  then show ?case using assms(1) by simp
next
  case (Suc k)
  let ?ak = "a\<lparr>matrix_structure_reusable :=
                matrix_structure_reusable a \<and> (\<forall>i<k. get_seq (sps ! i) = seqs ! i),
              vector_structure_reusable :=
                vector_structure_reusable a \<and> (\<forall>i<k. get_seq (sps ! i) = seqs ! i),
              sp_seq := Some (map get_seq (take k sps) @ drop k seqs)\<rparr>"
  have ih: "for_loop [0..<k] (set_spaces_step sps) a = (None, ?ak)"
    using Suc by simp
  have k: "k < length seqs" "k < length sps" using Suc.prems by simp_all
  have len: "length (map get_seq (take k sps)) = k" using k by simp
  have nth: "(map get_seq (take k sps) @ drop k seqs) ! k = seqs ! k"
    using k by (simp add: nth_append)
  have upd: "(map get_seq (take k sps) @ drop k seqs)[k := get_seq (sps ! k)]
             = map get_seq (take (Suc k) sps) @ drop (Suc k) seqs"
  proof -
    have d: "drop k seqs = seqs ! k # drop (Suc k) seqs"
      using k by (simp add: Cons_nth_drop_Suc)
    show ?thesis
      using k by (simp add: list_update_append take_Suc_conv_app_nth d)
  qed
  have step: "set_spaces_step sps k ?ak =
     (None, ?ak\<lparr>matrix_structure_reusable := matrix_structure_reusable ?ak \<and> get_seq (sps ! k) = seqs ! k,
              vector_structure_reusable := vector_structure_reusable ?ak \<and> get_seq (sps ! k) = seqs ! k,
              sp_seq := Some (map get_seq (take (Suc k) sps) @ drop (Suc k) seqs)\<rparr>)"
    using set_spaces_step_ok [of ?ak "map get_seq (take k sps) @ drop k seqs" k sps] k nth upd
    by simp
  have all: "(\<forall>i<Suc k. get_seq (sps ! i) = seqs ! i) \<longleftrightarrow>
             (\<forall>i<k. get_seq (sps ! i) = seqs ! i) \<and> get_seq (sps ! k) = seqs ! k"
    by (auto simp: less_Suc_eq)
  have "for_loop [0..<Suc k] (set_spaces_step sps) a = for_loop [k] (set_spaces_step sps) ?ak"
    by (simp add: for_loop_append ih)
  also have "\<dots> = (case set_spaces_step sps k ?ak of
                        (Some err, s') \<Rightarrow> (Some err, s') | (None, s') \<Rightarrow> (None, s'))"
    by (simp split: prod.splits option.splits)
  finally show ?case
    unfolding step all by simp
qed

lemma fold_update_replicate:
  "k \<le> length xs \<Longrightarrow> fold (\<lambda>i rows. rows[i := v]) [0..<k] xs = replicate k v @ drop k xs"
proof (induction k)
  case 0
  then show ?case by simp
next
  case (Suc k)
  have d: "drop k xs = xs ! k # drop (Suc k) xs"
    using Suc.prems by (simp add: Cons_nth_drop_Suc)
  show ?case
    using Suc by (simp add: list_update_append d replicate_append_same)
qed

lemma calloc_rows_eq:
  "calloc_rows markers forms_size =
     replicate markers (if forms_size > 0 then Some (replicate forms_size False) else None)"
  by (simp add: calloc_rows_def calloc_bool_def fold_update_replicate)

lemma set_spaces_step_sizes: "sizes (snd (set_spaces_step sps i a)) = sizes a"
  by (auto simp: set_spaces_step_def sizes_def split: sum.splits option.splits)

lemma set_spaces_loop_sizes: "sizes (snd (for_loop ks (set_spaces_step sps) a)) = sizes a"
  by (rule for_loop_rel [where R = "\<lambda>s t. sizes t = sizes s"])
     (simp_all add: set_spaces_step_sizes)

lemma set_spaces_success:
  assumes "set_spaces a sps = (None, a')"
  shows "\<exists>a1. sizes a1 = sizes a \<and> sps \<noteq> [] \<and>
           a' = (let a2 = (if min_marker_unused (sps ! 0) \<noteq> surface_markers_size a1
                          then resize_surface (min_marker_unused (sps ! 0)) a1 else a1);
                    a3 = (if min_marker_unused (sps ! 0) \<noteq> volume_markers_size a2
                          then resize_volume (min_marker_unused (sps ! 0)) a2 else a2)
                in a3)"
proof -
  obtain f a1 where l:
    "(case sp_seq a of
        None \<Rightarrow>
          (None, a\<lparr>spaces_size := length sps,
                    sp_seq := Some (replicate (length sps) (- 1))\<rparr>)
      | Some seqs \<Rightarrow> for_loop [0..<spaces_size a] (set_spaces_step sps) a) = (f, a1)"
    by (metis surj_pair)
  have s: "sizes a1 = sizes a"
  proof (cases "sp_seq a")
    case None
    then show ?thesis using l by (auto simp: sizes_def)
  next
    case (Some seqs)
    then show ?thesis
      using set_spaces_loop_sizes [of "[0..<spaces_size a]" sps a] l by simp
  qed
  have f: "f = None"
    using assms l by (cases f) (simp_all add: set_spaces_def)
  have ne: "sps \<noteq> []"
    using assms l f by (auto simp: set_spaces_def index_at_def)
  have "a' = (let a2 = (if min_marker_unused (sps ! 0) \<noteq> surface_markers_size a1
                          then resize_surface (min_marker_unused (sps ! 0)) a1 else a1);
                    a3 = (if min_marker_unused (sps ! 0) \<noteq> volume_markers_size a2
                          then resize_volume (min_marker_unused (sps ! 0)) a2 else a2)
                in a3)"
    using assms l f ne by (auto simp: set_spaces_def index_at_def Let_def)
  then show ?thesis using s ne by blast
qed

lemma set_spaces_rebind:
  assumes "sp_seq a = Some seqs" "spaces_size a \<le> length seqs" "spaces_size a \<le> length sps"
    and "sps \<noteq> []"
  shows "\<exists>a'. set_spaces a sps = (None, a') \<and>
           sp_seq a' = Some (map get_seq (take (spaces_size a) sps) @ drop (spaces_size a) seqs) \<and>
           spaces_size a' = spaces_size a \<and>
           matrix_structure_reusable a' =
             (matrix_structure_reusable a \<and> (\<forall>i<spaces_size a. get_seq (sps ! i) = seqs ! i)) \<and>
           vector_structure_reusable a' =
             (vector_structure_reusable a \<and> (\<forall>i<spaces_size a. get_seq (sps ! i) = seqs ! i))"
  using assms
  by (simp add: set_spaces_def set_spaces_loop [OF assms(1-3)] index_at_def Let_def
        resize_surface_def resize_volume_def)

lemma set_spaces_first:
  assumes "sp_seq a = None" and "sps \<noteq> []"
  shows "\<exists>a'. set_spaces a sps = (None, a') \<and>
           sp_seq a' = Some (replicate (length sps) (- 1)) \<and>
           spaces_size a' = length sps \<and>
           matrix_structure_reusable a' = matrix_structure_reusable a \<and>
           vector_structure_reusable a' = vector_structure_reusable a"
  using assms
  by (simp add: set_spaces_def index_at_def Let_def resize_surface_def resize_volume_def)

subsection \<open>The eligibility predicates below the threshold\<close>





subsection \<open>Running the small problem\<close>

lemma len3: "length xs = 3 \<Longrightarrow> \<exists>a b c. xs = [a, b, c]"
  by (cases xs; simp; cases "tl xs"; simp; cases "tl (tl xs)"; auto)

lemma len2: "length xs = 2 \<Longrightarrow> \<exists>a b. xs = [a, b]"
  by (cases xs; simp; cases "tl xs"; auto)

lemma all_less_2: "(\<forall>i<2::nat. P i) \<longleftrightarrow> P 0 \<and> P 1"
  by (auto simp: numeral_2_eq_2 less_Suc_eq)

lemma ex_less_2: "(\<exists>i<2::nat. P i) \<longleftrightarrow> P 0 \<or> P 1"
  by (auto simp: numeral_2_eq_2 less_Suc_eq)

lemma state_pass_two_fields:
  assumes "length al = 2"
    and "e s = [Some el0, Some el1]"
    and "blocks 0 0" "blocks 0 1" "blocks 1 0" "blocks 1 1"
  shows "state_pass 2 False blocks [sp0, sp1] s (al, calls) =
           (None, [get_element_assembly_list sp0 el0, get_element_assembly_list sp1 el1],
            local_loop_i (get_element_assembly_list sp1 el1) (get_element_assembly_list sp1 el1)
             (local_loop_i (get_element_assembly_list sp1 el1) (get_element_assembly_list sp0 el0)
               (local_loop_i (get_element_assembly_list sp0 el0) (get_element_assembly_list sp1 el1)
                 (local_loop_i (get_element_assembly_list sp0 el0) (get_element_assembly_list sp0 el0) calls))))"
proof -
  obtain x y where al: "al = [x, y]" using len2 [OF assms(1)] by auto
  show ?thesis
    using assms(2-)
    by (simp add: state_pass_def upt_0_2 assembly_list_step_def index_at_def al
          local_blocks_def local_block_def elem_present_def)
qed

lemma filter_unconstrained: "filter (\<lambda>x. 0 \<le> x) al = unconstrained al"
  by (simp add: unconstrained_def)

lemma ex_first_call:
  "prepare_sparse_structure (ex_asm False) (Some []) (Some []) ex_spaces [ex_state] =
     (None, ex_a1, Some ex_trace, Some [V_alloc 5])"
  by (simp add: ex_defs2 run_defs)

lemma ex_rebind: "set_spaces ex_a1 ex_spaces = (None, ex_a2)"
  by (simp add: ex_defs2 ex_a2_def set_spaces_def set_spaces_step_def index_at_def upt_0_2 Let_def
        resize_surface_def resize_volume_def)

section \<open>The claims\<close>

text \<open>
  \<^bold>\<open>C1\<close> (idempotence). As stated the property fails: the first \<^verbatim>\<open>set_spaces\<close> records
  \<open>-1\<close> for every space, so the \<^verbatim>\<open>set_spaces\<close> that follows the first
  \<^verbatim>\<open>prepare_sparse_structure\<close> finds a mismatch on the same, unchanged spaces and clears the
  flags, and the second \<^verbatim>\<open>prepare_sparse_structure\<close> frees the matrix and registers all the
  coordinates again.
\<close>

theorem idempotence_counterexample:
  "set_spaces ex_asm0 ex_spaces = (None, ex_b1)
   \<and> prepare_sparse_structure ex_b1 (Some []) (Some []) ex_spaces [ex_state] =
       (None, ex_b2, Some ex_trace, Some [V_alloc 5])
   \<and> set_spaces ex_b2 ex_spaces = (None, ex_b3)
   \<and> prepare_sparse_structure ex_b3 (Some ex_trace) (Some [V_alloc 5]) ex_spaces [ex_state] =
       (None, ex_b4, Some (ex_trace @ ex_trace), Some [V_alloc 5, V_alloc 5])"
  by (simp add: ex_defs ex_asm0_def ex_b1_def ex_b2_def ex_b3_def ex_b4_def ex_trace_def run_defs
        set_spaces_def set_spaces_step_def resize_surface_def resize_volume_def numeral_2_eq_2)

text \<open>
  \<^bold>\<open>C1\<close>, amended. Let a call of \<^verbatim>\<open>prepare_sparse_structure\<close> return, and let the next call
  follow it either directly or after a \<^verbatim>\<open>set_spaces\<close> that finds every sequence number
  equal to the recorded one, with the same weak formulation. Then the second call
  returns, leaves the assembler as it is, makes the single call \<^verbatim>\<open>zero()\<close> on the matrix
  (no \<^verbatim>\<open>free\<close>, \<^verbatim>\<open>prealloc\<close>, \<^verbatim>\<open>pre_add_ij\<close> or \<^verbatim>\<open>alloc\<close>), so that the sparsity pattern is the
  same, and makes one call on the vector: \<^verbatim>\<open>zero()\<close>, unless the vector has no entries, which
  with a positive number of dofs cannot be.
\<close>

theorem idempotence:
  assumes first: "prepare_sparse_structure a mat rhs spaces states = (None, a1, mat1, rhs1)"
    and between: "a2 = a1 \<or>
         (set_spaces a1 spaces = (None, a2) \<and> sp_seq a1 = Some seqs \<and>
          spaces_size a1 \<le> length seqs \<and> spaces_size a1 \<le> length spaces \<and>
          (\<forall>i<spaces_size a1. get_seq (spaces ! i) = seqs ! i))"
  shows "prepare_sparse_structure a2 mat1 rhs1 spaces states' =
           (None, a2,
            map_option (\<lambda>m. m @ [M_zero]) mat1,
            map_option (\<lambda>r. r @ [if vec_length r = 0 then V_alloc (get_num_dofs spaces) else V_zero]) rhs1)
         \<and> (\<forall>m. mat1 = Some m \<longrightarrow> sparsity_pattern (m @ [M_zero]) = sparsity_pattern m)
         \<and> (\<forall>r. rhs1 = Some r \<and> 0 < get_num_dofs spaces \<longrightarrow> vec_length r \<noteq> 0)"
proof -
  have r: "(mat = None \<longleftrightarrow> mat1 = None) \<and> (rhs = None \<longleftrightarrow> rhs1 = None) \<and>
           matrix_structure_reusable a1 = (matrix_structure_reusable a \<or> mat \<noteq> None) \<and>
           vector_structure_reusable a1 = (vector_structure_reusable a \<or> rhs \<noteq> None)"
    using prepare_result [OF first] by auto
  have flags: "matrix_structure_reusable a2 = matrix_structure_reusable a1 \<and>
               vector_structure_reusable a2 = vector_structure_reusable a1"
  proof (cases "a2 = a1")
    case True
    then show ?thesis by simp
  next
    case False
    then have b: "set_spaces a1 spaces = (None, a2)" "sp_seq a1 = Some seqs"
      "spaces_size a1 \<le> length seqs" "spaces_size a1 \<le> length spaces"
      "\<forall>i<spaces_size a1. get_seq (spaces ! i) = seqs ! i"
      using between by auto
    have ne: "spaces \<noteq> []"
      using set_spaces_success [OF b(1)] by blast
    show ?thesis
      using set_spaces_rebind [OF b(2) b(3) b(4) ne] b(1) b(5) by auto
  qed
  have m: "mat1 = None \<or> matrix_structure_reusable a2"
    and v: "rhs1 = None \<or> vector_structure_reusable a2"
    using r flags by auto
  have 1: "prepare_sparse_structure a2 mat1 rhs1 spaces states' =
           (None, a2,
            map_option (\<lambda>m. m @ [M_zero]) mat1,
            map_option (\<lambda>r. r @ [if vec_length r = 0 then V_alloc (get_num_dofs spaces) else V_zero]) rhs1)"
    using prepare_reuse [OF m v, of spaces states'] m v by auto
  have 3: "\<forall>r. rhs1 = Some r \<and> 0 < get_num_dofs spaces \<longrightarrow> vec_length r \<noteq> 0"
    using prepare_vec_length first by blast
  show ?thesis using 1 3 by (simp add: sparsity_pattern_zero)
qed

theorem idempotence_witness:
  "prepare_sparse_structure ex_a2 (Some ex_trace) (Some [V_alloc 5]) ex_spaces [] =
     (None, ex_a2, Some (ex_trace @ [M_zero]), Some [V_alloc 5, V_zero])
   \<and> sparsity_pattern (ex_trace @ [M_zero]) = sparsity_pattern ex_trace"
proof -
  have between: "ex_a2 = ex_a1 \<or>
         (set_spaces ex_a1 ex_spaces = (None, ex_a2) \<and> sp_seq ex_a1 = Some [4, 7] \<and>
          spaces_size ex_a1 \<le> length [4, 7 :: int] \<and> spaces_size ex_a1 \<le> length ex_spaces \<and>
          (\<forall>i<spaces_size ex_a1. get_seq (ex_spaces ! i) = [4, 7] ! i))"
    by (simp add: ex_rebind) (simp add: ex_defs2 all_less_2)
  show ?thesis
    using idempotence [OF ex_first_call between, of "[]"]
    by (simp add: vec_length_def)
qed




text \<open>
  \<^bold>\<open>C3\<close> (change sensitivity). On a binding after the first, \<^verbatim>\<open>set_spaces\<close> compares the
  sequence number of every space with the recorded one and records the current one. If
  any differs, both flags are false afterwards, so that the next
  \<^verbatim>\<open>prepare_sparse_structure\<close> frees and preallocates a given matrix and allocates a given
  vector anew; if none differs, the flags are left as they were.
\<close>

theorem change_sensitivity:
  assumes "sp_seq a = Some seqs" "length seqs = spaces_size a"
    and "spaces_size a \<le> length spacesToSet" "spacesToSet \<noteq> []"
  shows "\<exists>a'. set_spaces a spacesToSet = (None, a') \<and>
           sp_seq a' = Some (map get_seq (take (spaces_size a) spacesToSet)) \<and>
           ((\<exists>i<spaces_size a. get_seq (spacesToSet ! i) \<noteq> seqs ! i) \<longrightarrow>
              \<not> matrix_structure_reusable a' \<and> \<not> vector_structure_reusable a' \<and>
              (\<forall>m rhs spaces states f a'' mat' rhs'.
                 prepare_sparse_structure a' (Some m) rhs spaces states = (f, a'', mat', rhs') \<longrightarrow>
                 (\<exists>rest. mat' = Some (m @ [M_free, M_prealloc (get_num_dofs spaces)] @ rest))) \<and>
              (\<forall>mat r spaces states a'' mat' rhs'.
                 prepare_sparse_structure a' mat (Some r) spaces states = (None, a'', mat', rhs') \<longrightarrow>
                 rhs' = Some (r @ [V_alloc (get_num_dofs spaces)]))) \<and>
           ((\<forall>i<spaces_size a. get_seq (spacesToSet ! i) = seqs ! i) \<longrightarrow>
              matrix_structure_reusable a' = matrix_structure_reusable a \<and>
              vector_structure_reusable a' = vector_structure_reusable a)"
proof -
  have le: "spaces_size a \<le> length seqs" using assms(2) by simp
  obtain a' where a': "set_spaces a spacesToSet = (None, a')"
    "sp_seq a' = Some (map get_seq (take (spaces_size a) spacesToSet) @ drop (spaces_size a) seqs)"
    "matrix_structure_reusable a' =
       (matrix_structure_reusable a \<and> (\<forall>i<spaces_size a. get_seq (spacesToSet ! i) = seqs ! i))"
    "vector_structure_reusable a' =
       (vector_structure_reusable a \<and> (\<forall>i<spaces_size a. get_seq (spacesToSet ! i) = seqs ! i))"
    using set_spaces_rebind [OF assms(1) le assms(3) assms(4)] by blast
  have seq: "sp_seq a' = Some (map get_seq (take (spaces_size a) spacesToSet))"
    using a'(2) assms(2) by simp
  have m: "\<exists>rest. mat' = Some (m @ [M_free, M_prealloc (get_num_dofs spaces)] @ rest)"
    if "\<not> matrix_structure_reusable a'"
      "prepare_sparse_structure a' (Some m) rhs spaces states = (f, a'', mat', rhs')"
    for m rhs spaces states f a'' mat' rhs'
    using prepare_rebuild_matrix [OF that] by blast
  have v: "rhs' = Some (r @ [V_alloc (get_num_dofs spaces)])"
    if "\<not> vector_structure_reusable a'"
      "prepare_sparse_structure a' mat (Some r) spaces states = (None, a'', mat', rhs')"
    for mat r spaces states a'' mat' rhs'
    using prepare_rebuild_vector [OF that] .
  show ?thesis
  proof (intro exI [of _ a'] conjI impI)
    show "set_spaces a spacesToSet = (None, a')" by (rule a'(1))
    show "sp_seq a' = Some (map get_seq (take (spaces_size a) spacesToSet))" by (rule seq)
  next
    assume "\<exists>i<spaces_size a. get_seq (spacesToSet ! i) \<noteq> seqs ! i"
    then show "\<not> matrix_structure_reusable a'" "\<not> vector_structure_reusable a'"
      using a'(3,4) by auto
    then show "\<forall>m rhs spaces states f a'' mat' rhs'.
                 prepare_sparse_structure a' (Some m) rhs spaces states = (f, a'', mat', rhs') \<longrightarrow>
                 (\<exists>rest. mat' = Some (m @ [M_free, M_prealloc (get_num_dofs spaces)] @ rest))"
      "\<forall>mat r spaces states a'' mat' rhs'.
                 prepare_sparse_structure a' mat (Some r) spaces states = (None, a'', mat', rhs') \<longrightarrow>
                 rhs' = Some (r @ [V_alloc (get_num_dofs spaces)])"
      using m v by blast+
  next
    assume "\<forall>i<spaces_size a. get_seq (spacesToSet ! i) = seqs ! i"
    then show "matrix_structure_reusable a' = matrix_structure_reusable a"
      "vector_structure_reusable a' = vector_structure_reusable a"
      using a'(3,4) by auto
  qed
qed

theorem change_sensitivity_witness:
  "\<exists>a'. set_spaces ex_a1 ex_spaces_refined = (None, a') \<and> sp_seq a' = Some [5, 7] \<and>
        \<not> matrix_structure_reusable a' \<and> \<not> vector_structure_reusable a'"
proof -
  have "\<exists>i<spaces_size ex_a1. get_seq (ex_spaces_refined ! i) \<noteq> [4, 7] ! i"
    by (simp add: ex_defs2 ex_spaces_refined_def ex_less_2)
  then show ?thesis
    using change_sensitivity [of ex_a1 "[4, 7]" ex_spaces_refined]
    by (auto simp: ex_defs2 ex_spaces_refined_def)
qed

text \<open>
  \<^bold>\<open>C4\<close> (flags after a call). The claim that both flags are true after every call that
  returns fails when a target is a null pointer: the guards \<^verbatim>\<open>&& mat\<close> and \<^verbatim>\<open>&& rhs\<close> leave the
  flag of a missing target as it was. Here the matrix is missing, and its flag stays false.
\<close>

theorem flags_counterexample:
  "prepare_sparse_structure (ex_asm False) None (Some []) ex_spaces [ex_state] =
     (None, (ex_asm False)\<lparr>vector_structure_reusable := True\<rparr>, None, Some [V_alloc 5])
   \<and> \<not> matrix_structure_reusable ((ex_asm False)\<lparr>vector_structure_reusable := True\<rparr>)"
  by (simp add: ex_defs2 run_defs)

text \<open>
  \<^bold>\<open>C4\<close>, amended. After a call that returns, the flag of every target that was given is
  true, and the flag of a target that was not given is unchanged. A given matrix whose flag
  was false has been rebuilt (\<^verbatim>\<open>free\<close>, \<^verbatim>\<open>prealloc\<close>, the registrations, \<^verbatim>\<open>alloc\<close>), a given
  vector whose flag was false has been allocated anew.
\<close>

theorem flags_after_prepare:
  assumes "prepare_sparse_structure a mat rhs spaces states = (None, a', mat', rhs')"
  shows "(mat \<noteq> None \<longrightarrow> matrix_structure_reusable a')
       \<and> (rhs \<noteq> None \<longrightarrow> vector_structure_reusable a')
       \<and> (mat = None \<longrightarrow> matrix_structure_reusable a' = matrix_structure_reusable a \<and> mat' = None)
       \<and> (rhs = None \<longrightarrow> vector_structure_reusable a' = vector_structure_reusable a \<and> rhs' = None)
       \<and> (\<forall>m. mat = Some m \<and> \<not> matrix_structure_reusable a \<longrightarrow>
             (\<exists>regs. mat' = Some (m @ [M_free, M_prealloc (get_num_dofs spaces)] @ regs @ [M_alloc])))
       \<and> (\<forall>r. rhs = Some r \<and> \<not> vector_structure_reusable a \<longrightarrow>
             rhs' = Some (r @ [V_alloc (get_num_dofs spaces)]))"
proof -
  have 1: "(mat = None \<longleftrightarrow> mat' = None) \<and> (rhs = None \<longleftrightarrow> rhs' = None) \<and>
           matrix_structure_reusable a' = (matrix_structure_reusable a \<or> mat \<noteq> None) \<and>
           vector_structure_reusable a' = (vector_structure_reusable a \<or> rhs \<noteq> None)"
    using prepare_result [OF assms] by auto
  have 2: "\<exists>regs. mat' = Some (m @ [M_free, M_prealloc (get_num_dofs spaces)] @ regs @ [M_alloc])"
    if "mat = Some m" "\<not> matrix_structure_reusable a" for m
    using prepare_rebuild_matrix [OF that(2), of m rhs spaces states None a' mat' rhs'] assms that(1)
    by auto
  have 3: "rhs' = Some (r @ [V_alloc (get_num_dofs spaces)])"
    if "rhs = Some r" "\<not> vector_structure_reusable a" for r
    using prepare_rebuild_vector [OF that(2), of mat r spaces states a' mat' rhs'] assms that(1)
    by simp
  show ?thesis using 1 2 3 by auto
qed

theorem flags_after_prepare_witness:
  "matrix_structure_reusable ex_a1 \<and> vector_structure_reusable ex_a1
   \<and> (\<exists>regs. ex_trace = [M_free, M_prealloc 5] @ regs @ [M_alloc])"
  using flags_after_prepare [OF ex_first_call]
  by (simp add: ex_defs2 get_num_dofs_def)

text \<open>
  \<^bold>\<open>C5\<close> (DG registration). The claim asks that all the neighbours across an edge be
  iterated. On the triangle with two neighbours across edge 0 the run registers the pair
  of dofs 0 and 1 in both directions for the first neighbour, and then reads the
  neighbour's assembly list that the body of the loop over \<open>j\<close> has just deleted: the second
  neighbour (dof 2) is never reached, and the pattern is never committed.
\<close>

theorem dg_hanging_node_fault:
  "prepare_sparse_structure ex_dg_asm (Some []) None ex_dg_spaces [ex_dg_state] =
     (Some UseAfterFree, ex_dg_asm\<lparr>matrix_structure_reusable := True\<rparr>,
      Some [M_free, M_prealloc 3, M_pre_add_ij 0 1, M_pre_add_ij 1 0], None)"
  by (simp add: ex_defs ex_dg_asm_def ex_dg_spaces_def ex_dg_state_def run_defs dg_branch_def upt_0_3
      dg_loop_neigh.simps count_at_def dg_pre_add_def neighbor_at_def dg_loop_j.simps
      dg_deallocate_def)

text \<open>
  \<^bold>\<open>C6\<close> (sentinel). Whatever the inputs, and whether the call returns or faults, the calls
  that \<^verbatim>\<open>prepare_sparse_structure\<close> makes on the matrix are appended to the earlier ones, and
  none of them is a \<^verbatim>\<open>pre_add_ij\<close> with a negative row or column. This covers the DG branch
  and the local blocks.
\<close>

theorem pre_add_never_negative:
  assumes "prepare_sparse_structure a (Some m) rhs spaces states = (f, a', mat', rhs')"
  shows "\<exists>new. mat' = Some (m @ new) \<and> (\<forall>r c. M_pre_add_ij r c \<in> set new \<longrightarrow> 0 \<le> r \<and> 0 \<le> c)"
proof (cases "matrix_structure_reusable a")
  case True
  then have "mat' = Some (m @ [M_zero])"
    using assms
    by (auto simp: prepare_sparse_structure_def Let_def split: option.splits prod.splits if_splits)
  then show ?thesis by auto
next
  case False
  obtain regs where regs: "list_all nonneg_call regs"
    "mat' = Some (m @ [M_free, M_prealloc (get_num_dofs spaces)] @ regs
                          @ (if f = None then [M_alloc] else []))"
    using prepare_rebuild_matrix [OF False assms] by blast
  have "\<forall>r c. M_pre_add_ij r c \<in> set regs \<longrightarrow> 0 \<le> r \<and> 0 \<le> c"
    using regs(1) by (auto simp: list_all_iff nonneg_call_def)
  then show ?thesis
    using regs(2)
    by (intro exI [of _ "[M_free, M_prealloc (get_num_dofs spaces)] @ regs
                          @ (if f = None then [M_alloc] else [])"]) auto
qed

theorem pre_add_never_negative_witness:
  "\<exists>new. ex_trace = new \<and> (\<forall>r c. M_pre_add_ij r c \<in> set new \<longrightarrow> 0 \<le> r \<and> 0 \<le> c)"
  using pre_add_never_negative [OF ex_first_call] by simp

text \<open>
  \<^bold>\<open>C7\<close> (end-to-end scenario). Two spaces, every block allowed, no DG form, one state
  with both elements present, three unconstrained dofs \<open>u0\<close> in the first space and two
  \<open>u1\<close> in the second: the rebuild registers the 9 pairs of block (0,0), the 6 of (0,1), the
  6 of (1,0) and the 4 of (1,1), in this order, 25 in all, between \<^verbatim>\<open>prealloc\<close> and \<^verbatim>\<open>alloc\<close>.
\<close>

theorem end_to_end_two_fields:
  assumes "spaces_size a = 2" "wf a = Some w" "\<not> is_DG w"
    and "\<forall>m<2. \<forall>n<2. get_blocks w (force_diagonal_blocks a) m n"
    and "\<not> matrix_structure_reusable a"
    and "e current_state = [Some el0, Some el1]"
    and "unconstrained (get_element_assembly_list sp0 el0) = u0"
    and "unconstrained (get_element_assembly_list sp1 el1) = u1"
    and "length u0 = 3" "length u1 = 2"
  shows "\<exists>b00 b01 b10 b11.
           fst (snd (snd (prepare_sparse_structure a (Some m) rhs [sp0, sp1] [current_state]))) =
             Some (m @ [M_free, M_prealloc (get_num_dofs [sp0, sp1])]
                     @ b00 @ b01 @ b10 @ b11 @ [M_alloc]) \<and>
           b00 = concat (map (\<lambda>r. map (M_pre_add_ij r) u0) u0) \<and>
           b01 = concat (map (\<lambda>r. map (M_pre_add_ij r) u1) u0) \<and>
           b10 = concat (map (\<lambda>r. map (M_pre_add_ij r) u0) u1) \<and>
           b11 = concat (map (\<lambda>r. map (M_pre_add_ij r) u1) u1) \<and>
           length b00 = 9 \<and> length b01 = 6 \<and> length b10 = 6 \<and> length b11 = 4 \<and>
           length (b00 @ b01 @ b10 @ b11) = 25"
proof -
  have b: "get_blocks w (force_diagonal_blocks a) 0 0" "get_blocks w (force_diagonal_blocks a) 0 1"
    "get_blocks w (force_diagonal_blocks a) 1 0" "get_blocks w (force_diagonal_blocks a) 1 1"
    using assms(4) by simp_all
  obtain x y z where u0: "u0 = [x, y, z]" using len3 [OF assms(9)] by auto
  obtain u v where u1: "u1 = [u, v]" using len2 [OF assms(10)] by auto
  have len: "length (replicate 2 ([] :: AsmList)) = 2" by simp
  have pass: "state_pass 2 False (get_blocks w (force_diagonal_blocks a)) [sp0, sp1] current_state
                (replicate 2 [], m @ [M_free, M_prealloc (get_num_dofs [sp0, sp1])]) =
           (None, [get_element_assembly_list sp0 el0, get_element_assembly_list sp1 el1],
            m @ [M_free, M_prealloc (get_num_dofs [sp0, sp1])]
              @ concat (map (\<lambda>r. map (M_pre_add_ij r) u0) u0)
              @ concat (map (\<lambda>r. map (M_pre_add_ij r) u1) u0)
              @ concat (map (\<lambda>r. map (M_pre_add_ij r) u0) u1)
              @ concat (map (\<lambda>r. map (M_pre_add_ij r) u1) u1))"
    unfolding state_pass_two_fields [OF len assms(6) b] local_loop_i_eq filter_unconstrained assms(7,8)
    by simp
  have run: "fst (snd (snd (prepare_sparse_structure a (Some m) rhs [sp0, sp1] [current_state]))) =
             Some (m @ [M_free, M_prealloc (get_num_dofs [sp0, sp1])]
              @ concat (map (\<lambda>r. map (M_pre_add_ij r) u0) u0)
              @ concat (map (\<lambda>r. map (M_pre_add_ij r) u1) u0)
              @ concat (map (\<lambda>r. map (M_pre_add_ij r) u0) u1)
              @ concat (map (\<lambda>r. map (M_pre_add_ij r) u1) u1) @ [M_alloc])"
    using assms(1,2,3,5) pass
    by (simp add: prepare_sparse_structure_def create_matrix_def Let_def split: option.splits)
  show ?thesis
    using run by (simp add: u0 u1)
qed

theorem end_to_end_two_fields_witness:
  "fst (snd (snd (prepare_sparse_structure (ex_asm False) (Some []) None ex_spaces [ex_state])))
     = Some ex_trace
   \<and> length ex_trace = 25 + 3"
proof -
  have h: "spaces_size (ex_asm False) = 2" "wf (ex_asm False) = Some (ex_wf False)"
    "\<not> is_DG (ex_wf False)"
    "\<forall>m<2. \<forall>n<2. get_blocks (ex_wf False) (force_diagonal_blocks (ex_asm False)) m n"
    "\<not> matrix_structure_reusable (ex_asm False)"
    "e ex_state = [Some (ex_el 0), Some (ex_el 0)]"
    "unconstrained (get_element_assembly_list (ex_space 4 (\<lambda>k. [0, 1, 2]) 3) (ex_el 0)) = [0, 1, 2]"
    "unconstrained (get_element_assembly_list (ex_space 7 (\<lambda>k. [3, - 1, 4]) 2) (ex_el 0)) = [3, 4]"
    "length [0, 1, 2 :: int] = 3" "length [3, 4 :: int] = 2"
    by (simp_all add: ex_defs unconstrained_def)
  show ?thesis
    using end_to_end_two_fields [OF h, of "[]" None]
    by (simp add: ex_spaces_def ex_trace_def ex_space_def get_num_dofs_def)
qed

text \<open>
  \<^bold>\<open>C8\<close> (marker-zero law). In a state whose active edge has marker 0, neither surface
  predicate returns true, whatever the form's areas and scaling factor; whenever the
  generic predicate returns a value, the surface predicate returns false.
\<close>

theorem marker_zero_law:
  fixes form :: "'a MatrixForm_scheme" and vform :: "'b VectorForm_scheme"
  assumes "active_edge_marker current_state = Inr 0"
  shows "form_to_be_assembled_MatrixFormSurf block_weights form current_state \<noteq> Inr True
       \<and> form_to_be_assembled_VectorFormSurf vform current_state \<noteq> Inr True
       \<and> (\<forall>b. form_to_be_assembled_MatrixForm block_weights form current_state = Inr b \<longrightarrow>
              form_to_be_assembled_MatrixFormSurf block_weights form current_state = Inr False)
       \<and> (\<forall>b. form_to_be_assembled_VectorForm vform current_state = Inr b \<longrightarrow>
              form_to_be_assembled_VectorFormSurf vform current_state = Inr False)"
  using assms
  by (auto simp: form_to_be_assembled_MatrixFormSurf_def form_to_be_assembled_VectorFormSurf_def
           split: sum.splits)

theorem marker_zero_law_witness:
  "form_to_be_assembled_MatrixForm None (ex_form 0 1 1) ex_state = Inr True
   \<and> form_to_be_assembled_MatrixFormSurf None (ex_form 0 1 1) ex_state = Inr False
   \<and> form_to_be_assembled_VectorFormSurf
        \<lparr>scaling_factor = 1, assembleEverywhere = True, areas_internal = [], vform_i = 0\<rparr> ex_state
      = Inr False"
proof -
  have h: "active_edge_marker ex_state = Inr 0"
    by (simp add: active_edge_marker_def index_at_def ex_defs)
  have g: "form_to_be_assembled_MatrixForm None (ex_form 0 1 1) ex_state = Inr True"
    by (simp add: form_to_be_assembled_MatrixForm_def elem_present_def index_at_def ex_defs threshold_def)
  have v: "form_to_be_assembled_VectorForm
        \<lparr>scaling_factor = 1, assembleEverywhere = True, areas_internal = [], vform_i = 0\<rparr> ex_state
      = Inr True"
    by (simp add: form_to_be_assembled_VectorForm_def elem_present_def index_at_def ex_defs threshold_def)
  show ?thesis
    using marker_zero_law [OF h, of None "ex_form 0 1 1"
        "\<lparr>scaling_factor = 1, assembleEverywhere = True, areas_internal = [], vform_i = 0\<rparr>"] g v
    by blast
qed

text \<open>
  \<^bold>\<open>C9\<close> (cache resize). When \<^verbatim>\<open>set_spaces\<close> returns and the number of markers it reads
  differs from the recorded surface (volume) size, the four surface (volume) arrays are new
  arrays of that many entries: every per-marker flag is false, and every per-marker row is
  a new row of false flags, one per form, or a null pointer when there is no form. Nothing
  of the old arrays is kept.
\<close>

lemma cache_resize:
  assumes "set_spaces a spacesToSet = (None, a')"
  shows "(min_marker_unused (spacesToSet ! 0) \<noteq> surface_markers_size a \<longrightarrow>
            surface_markers_size a' = min_marker_unused (spacesToSet ! 0) \<and>
            matrix_surface_recalculation a' = Some (replicate (surface_markers_size a') False) \<and>
            vector_surface_recalculation a' = Some (replicate (surface_markers_size a') False) \<and>
            matrix_surface_forms_recalculation a' =
              Some (replicate (surface_markers_size a')
                      (if mfsurf_forms_size a' > 0 then Some (replicate (mfsurf_forms_size a') False) else None)) \<and>
            vector_surface_forms_recalculation a' =
              Some (replicate (surface_markers_size a')
                      (if vfsurf_forms_size a' > 0 then Some (replicate (vfsurf_forms_size a') False) else None)))
       \<and> (min_marker_unused (spacesToSet ! 0) \<noteq> volume_markers_size a \<longrightarrow>
            volume_markers_size a' = min_marker_unused (spacesToSet ! 0) \<and>
            matrix_volume_recalculation a' = Some (replicate (volume_markers_size a') False) \<and>
            vector_volume_recalculation a' = Some (replicate (volume_markers_size a') False) \<and>
            matrix_volume_forms_recalculation a' =
              Some (replicate (volume_markers_size a')
                      (if mfvol_forms_size a' > 0 then Some (replicate (mfvol_forms_size a') False) else None)) \<and>
            vector_volume_forms_recalculation a' =
              Some (replicate (volume_markers_size a')
                      (if vfvol_forms_size a' > 0 then Some (replicate (vfvol_forms_size a') False) else None)))
       \<and> mfsurf_forms_size a' = mfsurf_forms_size a \<and> vfsurf_forms_size a' = vfsurf_forms_size a
       \<and> mfvol_forms_size a' = mfvol_forms_size a \<and> vfvol_forms_size a' = vfvol_forms_size a"
proof -
  obtain a1 where a1: "sizes a1 = sizes a"
    and a': "a' = (let a2 = (if min_marker_unused (spacesToSet ! 0) \<noteq> surface_markers_size a1
                          then resize_surface (min_marker_unused (spacesToSet ! 0)) a1 else a1);
                    a3 = (if min_marker_unused (spacesToSet ! 0) \<noteq> volume_markers_size a2
                          then resize_volume (min_marker_unused (spacesToSet ! 0)) a2 else a2)
                in a3)"
    using set_spaces_success [OF assms] by blast
  show ?thesis
    using a1 unfolding a'
    by (simp add: sizes_def Let_def resize_surface_def resize_volume_def calloc_rows_eq calloc_bool_def)
qed

theorem cache_resize_witness:
  "\<exists>a'. set_spaces ex_asm_stale ex_spaces = (None, a') \<and>
     surface_markers_size a' = 3 \<and> volume_markers_size a' = 3 \<and>
     matrix_surface_recalculation a' = Some [False, False, False] \<and>
     vector_volume_recalculation a' = Some [False, False, False] \<and>
     matrix_surface_forms_recalculation a' = Some [None, None, None] \<and>
     matrix_volume_forms_recalculation a' =
       Some [Some [False, False, False, False], Some [False, False, False, False],
             Some [False, False, False, False]]"
proof -
  obtain a' where h: "set_spaces ex_asm_stale ex_spaces = (None, a')"
    by (simp add: ex_defs2 ex_asm_stale_def set_spaces_def set_spaces_step_def index_at_def
          upt_0_2 Let_def)
  have in1: "min_marker_unused (ex_spaces ! 0) = 3" "surface_markers_size ex_asm_stale = 2"
    "volume_markers_size ex_asm_stale = 2" "mfsurf_forms_size ex_asm_stale = 0"
    "mfvol_forms_size ex_asm_stale = 4"
    by (simp_all add: ex_defs2 ex_asm_stale_def)
  have r3: "replicate 3 x = [x, x, x]" for x :: 'a
    by (simp add: numeral_3_eq_3)
  have r4: "replicate 4 False = [False, False, False, False]"
    by (simp add: numeral_Bit0 replicate_add numeral_2_eq_2)
  show ?thesis
    using cache_resize [OF h] h unfolding in1
    by (simp add: r3 r4)
qed

text \<open>
  \<^bold>\<open>C10\<close> (first binding). The first \<^verbatim>\<open>set_spaces\<close> fills the recorded sequence numbers
  with \<open>-1\<close> and leaves the flags alone; it does not read the spaces' sequence numbers. The
  next \<^verbatim>\<open>set_spaces\<close> on the same spaces records them, and clears both flags as soon as one
  space has a non-negative sequence number.
\<close>

theorem first_binding_sentinel:
  assumes "sp_seq a = None" and "spacesToSet \<noteq> []"
  shows "\<exists>a1 a2. set_spaces a spacesToSet = (None, a1) \<and>
           sp_seq a1 = Some (replicate (length spacesToSet) (- 1)) \<and>
           matrix_structure_reusable a1 = matrix_structure_reusable a \<and>
           vector_structure_reusable a1 = vector_structure_reusable a \<and>
           set_spaces a1 spacesToSet = (None, a2) \<and>
           sp_seq a2 = Some (map get_seq spacesToSet) \<and>
           ((\<exists>sp\<in>set spacesToSet. 0 \<le> get_seq sp) \<longrightarrow>
              \<not> matrix_structure_reusable a2 \<and> \<not> vector_structure_reusable a2)"
proof -
  let ?n = "length spacesToSet"
  obtain a1 where a1: "set_spaces a spacesToSet = (None, a1)"
    "sp_seq a1 = Some (replicate ?n (- 1))" "spaces_size a1 = ?n"
    "matrix_structure_reusable a1 = matrix_structure_reusable a"
    "vector_structure_reusable a1 = vector_structure_reusable a"
    using set_spaces_first [OF assms] by blast
  have l1: "spaces_size a1 \<le> length (replicate ?n (- 1 :: int))"
    and l2: "spaces_size a1 \<le> length spacesToSet"
    using a1(3) by simp_all
  obtain a2 where a2: "set_spaces a1 spacesToSet = (None, a2)"
    "sp_seq a2 = Some (map get_seq (take (spaces_size a1) spacesToSet)
                        @ drop (spaces_size a1) (replicate ?n (- 1)))"
    "matrix_structure_reusable a2 =
       (matrix_structure_reusable a1 \<and>
        (\<forall>i<spaces_size a1. get_seq (spacesToSet ! i) = replicate ?n (- 1) ! i))"
    "vector_structure_reusable a2 =
       (vector_structure_reusable a1 \<and>
        (\<forall>i<spaces_size a1. get_seq (spacesToSet ! i) = replicate ?n (- 1) ! i))"
    using set_spaces_rebind [OF a1(2) l1 l2 assms(2)] by blast
  have seq: "sp_seq a2 = Some (map get_seq spacesToSet)"
    using a2(2) a1(3) by simp
  have mis: "\<not> (\<forall>i<spaces_size a1. get_seq (spacesToSet ! i) = replicate ?n (- 1) ! i)"
    if h: "\<exists>sp\<in>set spacesToSet. 0 \<le> get_seq sp"
  proof -
    obtain i where i: "i < ?n" "0 \<le> get_seq (spacesToSet ! i)"
      using h by (auto simp: in_set_conv_nth)
    then have "get_seq (spacesToSet ! i) \<noteq> replicate ?n (- 1) ! i" by simp
    then show ?thesis using i(1) a1(3) by auto
  qed
  show ?thesis
    using a1 a2(1,3,4) seq mis by auto
qed

theorem first_binding_sentinel_witness:
  "\<exists>a1 a2. set_spaces DiscreteProblemSelectiveAssembler ex_spaces = (None, a1) \<and>
           sp_seq a1 = Some [- 1, - 1] \<and>
           set_spaces a1 ex_spaces = (None, a2) \<and>
           sp_seq a2 = Some [4, 7] \<and>
           \<not> matrix_structure_reusable a2 \<and> \<not> vector_structure_reusable a2"
proof -
  have "\<exists>sp\<in>set ex_spaces. 0 \<le> get_seq sp" by (simp add: ex_defs2)
  then show ?thesis
    using first_binding_sentinel [of DiscreteProblemSelectiveAssembler ex_spaces]
    by (auto simp: ex_defs2 numeral_2_eq_2)
qed

end
